theory Spec2Isabelle
  imports Complex_Main "HOL-Library.AList" "HOL-Library.Sublist"
begin

section \<open>Conventions of the embedding\<close>

text \<open>
  The TypeScript sources are embedded shallowly.  A JavaScript \<open>number\<close> that holds a
  quantity (price, amount, percentage) is a \<^typ>\<open>real\<close>: the arithmetic of the source is
  read as exact arithmetic, so rounding, \<open>NaN\<close> and the infinities of IEEE doubles are
  outside the model.  A \<open>number\<close> that holds a time stamp of \<open>Date.now()\<close> or a counter is
  an \<^typ>\<open>int\<close>.  A JavaScript string is a \<^typ>\<open>string\<close> of 8-bit characters: the
  code units below 256.  \<open>toUpperCase\<close> acts on the ASCII letters only.  A \<open>Map\<close> is an
  association list in insertion order, as \<open>Array.from(map.values())\<close> observes that
  order.
\<close>

subsection \<open>Strings\<close>

definition toUpperChar :: "char \<Rightarrow> char" where
  "toUpperChar c =
     (case map_of (zip ''abcdefghijklmnopqrstuvwxyz'' ''ABCDEFGHIJKLMNOPQRSTUVWXYZ'') c of
        Some u \<Rightarrow> u | None \<Rightarrow> c)"

text \<open>
  \<open>toLowerCase\<close> lowers the capital letters among the characters below 256: those of
  ASCII and those of Latin-1, \<open>U+00C0\<close> to \<open>U+00DE\<close> without the sign \<open>U+00D7\<close>.
\<close>

definition toLowerChar :: "char \<Rightarrow> char" where
  "toLowerChar c =
     (case map_of
        (zip (''ABCDEFGHIJKLMNOPQRSTUVWXYZ'' @
           [CHR 0xC0, CHR 0xC1, CHR 0xC2, CHR 0xC3, CHR 0xC4, CHR 0xC5, CHR 0xC6, CHR 0xC7,
            CHR 0xC8, CHR 0xC9, CHR 0xCA, CHR 0xCB, CHR 0xCC, CHR 0xCD, CHR 0xCE, CHR 0xCF,
            CHR 0xD0, CHR 0xD1, CHR 0xD2, CHR 0xD3, CHR 0xD4, CHR 0xD5, CHR 0xD6, CHR 0xD8,
            CHR 0xD9, CHR 0xDA, CHR 0xDB, CHR 0xDC, CHR 0xDD, CHR 0xDE])
          (''abcdefghijklmnopqrstuvwxyz'' @
           [CHR 0xE0, CHR 0xE1, CHR 0xE2, CHR 0xE3, CHR 0xE4, CHR 0xE5, CHR 0xE6, CHR 0xE7,
            CHR 0xE8, CHR 0xE9, CHR 0xEA, CHR 0xEB, CHR 0xEC, CHR 0xED, CHR 0xEE, CHR 0xEF,
            CHR 0xF0, CHR 0xF1, CHR 0xF2, CHR 0xF3, CHR 0xF4, CHR 0xF5, CHR 0xF6, CHR 0xF8,
            CHR 0xF9, CHR 0xFA, CHR 0xFB, CHR 0xFC, CHR 0xFD, CHR 0xFE])) c of
        Some l \<Rightarrow> l | None \<Rightarrow> c)"

definition toUpperCase :: "string \<Rightarrow> string" where
  "toUpperCase s = map toUpperChar s"

definition toLowerCase :: "string \<Rightarrow> string" where
  "toLowerCase s = map toLowerChar s"

text \<open>\<open>s.includes(p)\<close>: \<open>p\<close> occurs in \<open>s\<close> as a contiguous substring.\<close>

definition str_includes :: "string \<Rightarrow> string \<Rightarrow> bool" where
  "str_includes s p = sublist p s"


section \<open>Aggregation of portfolio items (\<open>lib/portfolioHelpers.ts\<close>)\<close>

text \<open>
  Modelled from the spec: \<open>PortfolioItem\<close> of \<open>lib/types\<close>, which is not among the
  sources, with the attributes that the data model lists (\<open>itemType\<close> is its \<open>type\<close>).
\<close>

record PortfolioItem =
  address :: string
  name :: string
  symbol :: string
  decimals :: int
  logoURI :: string
  price :: real
  amount :: real
  chain :: string
  priceChange24h :: real
  volume24h :: "real option"
  itemType :: "string option"

text \<open>
  The object literal of an aggregated item spreads the source item (\<open>...item\<close>), so at
  run time it carries every field of the item, \<open>chain\<close> too, and the three fields that
  \<open>AggregatedPortfolioItem\<close> adds: it is the record extension.
\<close>

record AggregatedPortfolioItem = PortfolioItem +
  chains :: "string list"
  originalItems :: "PortfolioItem list"
  isAggregated :: bool

definition SYMBOL_AGGREGATION_MAP :: "string \<rightharpoonup> string" where
  "SYMBOL_AGGREGATION_MAP =
     map_of [(''WETH'', ''ETH''), (''ETH'', ''ETH''), (''USDC'', ''USDC'')]"

definition ETH_LOGO :: string where
  "ETH_LOGO =
     ''https://raw.githubusercontent.com/trustwallet/assets/master/blockchains/ethereum/info/logo.png''"

text \<open>\<open>{ ...item, chains: cs, originalItems: ois, isAggregated: flag }\<close>\<close>

definition spreadItem ::
  "PortfolioItem \<Rightarrow> string list \<Rightarrow> PortfolioItem list \<Rightarrow> bool \<Rightarrow> AggregatedPortfolioItem" where
  "spreadItem item cs ois flag =
     \<lparr> address = address item, name = name item, symbol = symbol item,
       decimals = decimals item, logoURI = logoURI item, price = price item,
       amount = amount item, chain = chain item, priceChange24h = priceChange24h item,
       volume24h = volume24h item, itemType = itemType item,
       chains = cs, originalItems = ois, isAggregated = flag \<rparr>"

text \<open>The three \<open>reduce\<close> calls of the merge branch, each a left fold from \<open>0\<close>.\<close>

definition totalValueOf :: "PortfolioItem list \<Rightarrow> real" where
  "totalValueOf ois = foldl (\<lambda>sum i. sum + price i * amount i) 0 ois"

definition totalAmountOf :: "PortfolioItem list \<Rightarrow> real" where
  "totalAmountOf ois = foldl (\<lambda>sum i. sum + amount i) 0 ois"

definition totalChangeOf :: "PortfolioItem list \<Rightarrow> real" where
  "totalChangeOf ois = foldl (\<lambda>sum i. sum + priceChange24h i * amount i) 0 ois"

text \<open>The merge branch: the statements that mutate \<open>existing\<close>, in the source's order.\<close>

definition mergeItem :: "AggregatedPortfolioItem \<Rightarrow> PortfolioItem \<Rightarrow> AggregatedPortfolioItem" where
  "mergeItem existing item =
     (let e1 = existing\<lparr> amount := amount existing + amount item \<rparr>;
          e2 = (if chain item \<notin> set (chains e1)
                then e1\<lparr> chains := chains e1 @ [chain item] \<rparr> else e1);
          e3 = e2\<lparr> originalItems := originalItems e2 @ [item] \<rparr>;
          totalValue = totalValueOf (originalItems e3);
          totalAmount = totalAmountOf (originalItems e3);
          e4 = e3\<lparr> price := (if totalAmount > 0 then totalValue / totalAmount else 0) \<rparr>
      in e4\<lparr> priceChange24h :=
                (if totalAmount > 0 then totalChangeOf (originalItems e4) / totalAmount else 0) \<rparr>)"

text \<open>The seed branch: the first item of an aliased symbol.\<close>

definition seedItem :: "string \<Rightarrow> PortfolioItem \<Rightarrow> AggregatedPortfolioItem" where
  "seedItem canonicalSymbol item =
     (spreadItem item [chain item] [item] True)
       \<lparr> symbol := canonicalSymbol,
         name := (if canonicalSymbol = ''ETH'' then ''Ethereum'' else canonicalSymbol),
         logoURI := (if canonicalSymbol = ''ETH'' then ETH_LOGO else logoURI item) \<rparr>"

type_synonym aggregationMap = "(string \<times> AggregatedPortfolioItem) list"

text \<open>
  \<open>Map.set\<close> is \<^const>\<open>AList.update\<close>: a present key keeps its position and gets the new
  value, a new key is appended.  \<open>Map.has\<close> and \<open>Map.get\<close> are \<^const>\<open>map_of\<close>.
\<close>

definition aggregateStep :: "PortfolioItem \<Rightarrow> aggregationMap \<Rightarrow> aggregationMap" where
  "aggregateStep item aggregationMap =
     (case SYMBOL_AGGREGATION_MAP (toUpperCase (symbol item)) of
        Some canonicalSymbol \<Rightarrow>
          (let key = canonicalSymbol in
           case map_of aggregationMap key of
             Some existing \<Rightarrow> AList.update key (mergeItem existing item) aggregationMap
           | None \<Rightarrow> AList.update key (seedItem canonicalSymbol item) aggregationMap)
      | None \<Rightarrow>
          AList.update (symbol item @ ''-'' @ chain item)
            (spreadItem item [chain item] [item] False) aggregationMap)"

definition aggregationMapOf :: "PortfolioItem list \<Rightarrow> aggregationMap" where
  "aggregationMapOf items = fold aggregateStep items []"

definition aggregatePortfolioItems :: "PortfolioItem list \<Rightarrow> AggregatedPortfolioItem list" where
  "aggregatePortfolioItems items = map snd (aggregationMapOf items)"

subsection \<open>Predicates used to state the properties of the aggregation\<close>

text \<open>An item takes the aliased branch when its upper-cased symbol is a key of the table.\<close>

definition inAliasTable :: "string \<Rightarrow> bool" where
  "inAliasTable s \<longleftrightarrow> SYMBOL_AGGREGATION_MAP (toUpperCase s) \<noteq> None"

text \<open>
  The weighted average in the words of the specification: \<open>\<Sum>(f\<^sub>i \<cdot> amount\<^sub>i) / \<Sum>(amount\<^sub>i)\<close>
  over the original items, and \<open>0\<close> when the total amount is \<open>0\<close>.
\<close>

definition spec_weightedAverage :: "(PortfolioItem \<Rightarrow> real) \<Rightarrow> PortfolioItem list \<Rightarrow> real" where
  "spec_weightedAverage f ois =
     (if (\<Sum>i\<leftarrow>ois. amount i) = 0 then 0
      else (\<Sum>i\<leftarrow>ois. f i * amount i) / (\<Sum>i\<leftarrow>ois. amount i))"

definition spec_weightedAverageInvariant :: "AggregatedPortfolioItem \<Rightarrow> bool" where
  "spec_weightedAverageInvariant g \<longleftrightarrow>
     amount g = (\<Sum>i\<leftarrow>originalItems g. amount i) \<and>
     price g = spec_weightedAverage price (originalItems g) \<and>
     priceChange24h g = spec_weightedAverage priceChange24h (originalItems g)"

text \<open>What the merge and seed branches establish for a group, as the code computes it.\<close>

definition groupInv :: "AggregatedPortfolioItem \<Rightarrow> bool" where
  "groupInv g \<longleftrightarrow>
     originalItems g \<noteq> [] \<and>
     amount g = totalAmountOf (originalItems g) \<and>
     (2 \<le> length (originalItems g) \<longrightarrow>
        price g = (if totalAmountOf (originalItems g) > 0
                   then totalValueOf (originalItems g) / totalAmountOf (originalItems g) else 0) \<and>
        priceChange24h g = (if totalAmountOf (originalItems g) > 0
                   then totalChangeOf (originalItems g) / totalAmountOf (originalItems g) else 0)) \<and>
     (length (originalItems g) = 1 \<longrightarrow>
        price g = price (hd (originalItems g)) \<and>
        priceChange24h g = priceChange24h (hd (originalItems g)))"

text \<open>How the flag, the key and the symbol of an entry of the map are related.\<close>

definition flagInv :: "string \<Rightarrow> AggregatedPortfolioItem \<Rightarrow> bool" where
  "flagInv k g \<longleftrightarrow>
     originalItems g \<noteq> [] \<and>
     (isAggregated g \<longleftrightarrow> k = ''ETH'' \<or> k = ''USDC'') \<and>
     (\<forall>i\<in>set (originalItems g). inAliasTable (symbol i) = isAggregated g) \<and>
     (isAggregated g \<longrightarrow> symbol g = k) \<and>
     (\<not> isAggregated g \<longrightarrow>
        length (originalItems g) = 1 \<and> symbol g = symbol (hd (originalItems g)) \<and>
        k = symbol g @ ''-'' @ chain g)"

text \<open>The items that are stored under the key \<open>k\<close> by the non-aliased branch.\<close>

definition plainKeyed :: "string \<Rightarrow> PortfolioItem \<Rightarrow> bool" where
  "plainKeyed k item \<longleftrightarrow>
     \<not> inAliasTable (symbol item) \<and> symbol item @ ''-'' @ chain item = k"

subsection \<open>Concrete portfolio items\<close>

definition wethItem :: PortfolioItem where
  "wethItem = \<lparr> address = ''0xc02aaa39b223fe8d0a0e5c4f27ead9083c756cc2'', name = ''Wrapped Ether'',
     symbol = ''WETH'', decimals = 18, logoURI = ''weth.png'', price = 2000, amount = 1,
     chain = ''ethereum'', priceChange24h = 5, volume24h = None, itemType = None \<rparr>"

definition ethItem :: PortfolioItem where
  "ethItem = \<lparr> address = ''0x0000000000000000000000000000000000000000'', name = ''Ether'',
     symbol = ''ETH'', decimals = 18, logoURI = ''eth.png'', price = 2000, amount = 1,
     chain = ''arbitrum'', priceChange24h = - 5, volume24h = None, itemType = None \<rparr>"

definition pepeFirst :: PortfolioItem where
  "pepeFirst = \<lparr> address = ''0x6982508145454ce325ddbe47a25d4ec3d2311933'', name = ''Pepe'',
     symbol = ''PEPE'', decimals = 18, logoURI = ''pepe.png'', price = 2, amount = 10,
     chain = ''ethereum'', priceChange24h = 1, volume24h = None, itemType = None \<rparr>"

definition pepeSecond :: PortfolioItem where
  "pepeSecond = \<lparr> address = ''0x6982508145454ce325ddbe47a25d4ec3d2311933'', name = ''Pepe'',
     symbol = ''PEPE'', decimals = 18, logoURI = ''pepe.png'', price = 2, amount = 7,
     chain = ''ethereum'', priceChange24h = 1, volume24h = None, itemType = None \<rparr>"

definition idleItem :: PortfolioItem where
  "idleItem = \<lparr> address = ''0x00000000000000000000000000000000000000aa'', name = ''Idle Token'',
     symbol = ''IDLE'', decimals = 18, logoURI = '''', price = 5, amount = 0,
     chain = ''base'', priceChange24h = 3, volume24h = None, itemType = None \<rparr>"

definition loneUsdc :: PortfolioItem where
  "loneUsdc = \<lparr> address = ''0xa0b86991c6218b36c1d19d4a2e9eb0ce3606eb48'', name = ''USD Coin'',
     symbol = ''USDC'', decimals = 6, logoURI = ''usdc.png'', price = 1, amount = 25,
     chain = ''ethereum'', priceChange24h = 0, volume24h = None, itemType = None \<rparr>"

section \<open>The portfolio view (\<open>components/Portfolio.tsx\<close>)\<close>

text \<open>
  The component aggregates the concatenated holdings, filters the dust, and computes
  the total balance and the weighted 24h change from the filtered list; the list is
  sorted by descending USD value when it is rendered.
\<close>

definition assetsOf :: "AggregatedPortfolioItem list \<Rightarrow> AggregatedPortfolioItem list" where
  "assetsOf aggregatedAssets =
     filter (\<lambda>asset. price asset * amount asset > 0.02) aggregatedAssets"

definition totalBalance :: "AggregatedPortfolioItem list \<Rightarrow> real" where
  "totalBalance assets = foldl (\<lambda>sum asset. sum + price asset * amount asset) 0 assets"

definition portfolioPnL :: "AggregatedPortfolioItem list \<Rightarrow> real" where
  "portfolioPnL assets =
     (if length assets > 0
      then foldl (\<lambda>weightedPnL asset.
                    let assetValue = price asset * amount asset
                    in weightedPnL + priceChange24h asset * assetValue) 0 assets
           / totalBalance assets
      else 0)"

text \<open>
  \<open>assets.sort((a, b) => b.price * b.amount - a.price * a.amount)\<close>: a stable sort by
  descending USD value.
\<close>

definition sortedAssets :: "AggregatedPortfolioItem list \<Rightarrow> AggregatedPortfolioItem list" where
  "sortedAssets assets = sort_key (\<lambda>a. - (price a * amount a)) assets"

text \<open>The dust item of the specification: price 0.001, amount 1.\<close>

definition dustItem :: PortfolioItem where
  "dustItem = \<lparr> address = ''0x00000000000000000000000000000000000000dd'', name = ''Dust'',
     symbol = ''DUST'', decimals = 18, logoURI = '''', price = 0.001, amount = 1,
     chain = ''base'', priceChange24h = 0, volume24h = None, itemType = None \<rparr>"


section \<open>The token denylist (\<open>DenylistCache\<close>)\<close>

text \<open>
  The IndexedDB object store, keyed by the \<open>key\<close> of its entries, is a map from keys to
  entries.  \<open>this.db\<close> is \<open>None\<close> when the database could not be opened: every method
  then returns early or runs into its \<open>catch\<close>.  \<open>Date.now()\<close> is the parameter \<open>now\<close>, and
  \<open>Math.random()\<close> is the parameter \<open>rnd\<close>.  A chain id given as a number is represented
  by the string that the template literal makes of it.
\<close>

record DenylistEntry =
  key :: string
  timestamp :: int

type_synonym denylistStore = "string \<rightharpoonup> DenylistEntry"

type_synonym denylistDb = "denylistStore option"

definition TTL_MS :: int where
  "TTL_MS = 24 * 60 * 60 * 1000"

definition DENYLIST_MESSAGES :: "string list" where
  "DENYLIST_MESSAGES = [''deny list'', ''denylist'', ''is invalid'']"

definition createKey :: "string \<Rightarrow> string \<Rightarrow> string" where
  "createKey token chainId = chainId @ ''-'' @ toLowerCase token"

definition isExpired :: "int \<Rightarrow> int \<Rightarrow> bool" where
  "isExpired now ts \<longleftrightarrow> now - ts > TTL_MS"

text \<open>
  \<open>cleanupExpired\<close> deletes through the index on \<open>timestamp\<close> every entry in the range
  \<open>IDBKeyRange.upperBound(cutoffTime)\<close>, which includes the bound.
\<close>

definition cleanupExpired :: "int \<Rightarrow> denylistDb \<Rightarrow> denylistDb" where
  "cleanupExpired now db =
     (case db of
        None \<Rightarrow> None
      | Some store \<Rightarrow>
          (let cutoffTime = now - TTL_MS in
           Some (\<lambda>k. case store k of
                        None \<Rightarrow> None
                      | Some entry \<Rightarrow> if timestamp entry \<le> cutoffTime then None else Some entry)))"

definition removeFromDenylist :: "string \<Rightarrow> string \<Rightarrow> denylistDb \<Rightarrow> denylistDb" where
  "removeFromDenylist token chainId db =
     (case db of
        None \<Rightarrow> None
      | Some store \<Rightarrow> Some (store (createKey token chainId := None)))"

text \<open>The result of \<open>isDenylisted\<close> and the database after the call.\<close>

definition isDenylisted :: "int \<Rightarrow> string \<Rightarrow> string \<Rightarrow> denylistDb \<Rightarrow> bool \<times> denylistDb" where
  "isDenylisted now token chainId db =
     (case db of
        None \<Rightarrow> (False, db)
      | Some store \<Rightarrow>
          (case store (createKey token chainId) of
             None \<Rightarrow> (False, db)
           | Some result \<Rightarrow>
               if isExpired now (timestamp result)
               then (False, removeFromDenylist token chainId db)
               else (True, db)))"

definition addToDenylist :: "int \<Rightarrow> real \<Rightarrow> string \<Rightarrow> string \<Rightarrow> denylistDb \<Rightarrow> denylistDb" where
  "addToDenylist now rnd token chainId db =
     (case db of
        None \<Rightarrow> None
      | Some store \<Rightarrow>
          (let key = createKey token chainId;
               entry = \<lparr> key = key, timestamp = now \<rparr>;
               db' = Some (store (key \<mapsto> entry))
           in if rnd < 0.1 then cleanupExpired now db' else db'))"

definition isDenylistError :: "string \<Rightarrow> bool" where
  "isDenylistError errorMessage =
     (let message = toLowerCase errorMessage
      in list_ex (\<lambda>phrase. str_includes message phrase) DENYLIST_MESSAGES)"

subsection \<open>The pattern \<open>/token\s+(\d+)-([a-fA-F0-9x]+)/i\<close>\<close>

text \<open>
  Every quantifier of the pattern is followed by a character outside its class, so the
  greedy match never backtracks: at a position the match is found by taking the longest
  run of each class.  \<open>match\<close> returns the leftmost match.  Under the flag \<open>i\<close> the class
  \<open>[a-fA-F0-9x]\<close> also holds \<open>X\<close>.  The class \<open>\s\<close> holds, of the characters below 256,
  space, tab, line feed, vertical tab, form feed, carriage return and the no-break space
  \<open>U+00A0\<close>; its other members (\<open>U+1680\<close>, \<open>U+2000\<close> to \<open>U+200A\<close>, \<open>U+2028\<close>,
  \<open>U+2029\<close>, \<open>U+202F\<close>, \<open>U+205F\<close>, \<open>U+3000\<close>, \<open>U+FEFF\<close>) are not characters of
  these strings.  The class \<open>\d\<close> is \<open>[0-9]\<close>.
\<close>

definition isDigit :: "char \<Rightarrow> bool" where
  "isDigit c \<longleftrightarrow> c \<in> set ''0123456789''"

definition isSpace :: "char \<Rightarrow> bool" where
  "isSpace c \<longleftrightarrow>
     c \<in> set [CHR '' '', CHR 0x09, CHR 0x0A, CHR 0x0B, CHR 0x0C, CHR 0x0D, CHR 0xA0]"

definition isHexOrX :: "char \<Rightarrow> bool" where
  "isHexOrX c \<longleftrightarrow> c \<in> set ''abcdefABCDEF0123456789xX''"

text \<open>The match at the start of \<open>s\<close>: the two groups, chain id and token.\<close>

definition matchTokenAt :: "string \<Rightarrow> (string \<times> string) option" where
  "matchTokenAt s =
     (let afterWord = drop 5 s;
          afterSpace = dropWhile isSpace afterWord;
          digits = takeWhile isDigit afterSpace;
          afterDigits = dropWhile isDigit afterSpace;
          hex = takeWhile isHexOrX (drop 1 afterDigits)
      in if toLowerCase (take 5 s) = ''token''
            \<and> takeWhile isSpace afterWord \<noteq> []
            \<and> digits \<noteq> []
            \<and> take 1 afterDigits = ''-''
            \<and> hex \<noteq> []
         then Some (digits, hex) else None)"

fun parseTokenFromError :: "string \<Rightarrow> (string \<times> string) option" where
  "parseTokenFromError [] = matchTokenAt []"
| "parseTokenFromError (c # cs) =
     (case matchTokenAt (c # cs) of
        Some tokenMatch \<Rightarrow> Some tokenMatch
      | None \<Rightarrow> parseTokenFromError cs)"

text \<open>
  The optional arguments \<open>token\<close> and \<open>chainId\<close> are \<open>None\<close> when absent; an empty string
  is falsy as well.
\<close>

definition handlePotentialDenylistError ::
  "int \<Rightarrow> real \<Rightarrow> string \<Rightarrow> string option \<Rightarrow> string option \<Rightarrow> denylistDb \<Rightarrow> bool \<times> denylistDb" where
  "handlePotentialDenylistError now rnd errorMessage token chainId db =
     (if \<not> isDenylistError errorMessage then (False, db)
      else case parseTokenFromError errorMessage of
             Some (parsedChainId, parsedToken) \<Rightarrow>
               (True, addToDenylist now rnd parsedToken parsedChainId db)
           | None \<Rightarrow>
               (case (token, chainId) of
                  (Some t, Some c) \<Rightarrow>
                    if t \<noteq> [] \<and> c \<noteq> [] then (True, addToDenylist now rnd t c db)
                    else (False, db)
                | _ \<Rightarrow> (False, db)))"

text \<open>The error body of the specification, with the address written out.\<close>

definition denyListBody :: string where
  "denyListBody =
     ''{\"message\":\"Token 42161-0xABCDEF0123456789abcdef0123456789ABCDEF01 is invalid or in deny list.\",\"code\":1003}''"

text \<open>An error text in which the pattern matches before the sentence of the specification.\<close>

definition earlierTokenBody :: string where
  "earlierTokenBody =
     ''Swap failed for token 1-0xdeadbeef: Token 42161-0xABCDEF0123456789abcdef0123456789ABCDEF01 is invalid or in deny list.''"


section \<open>Token metadata of the EVM fetcher (\<open>lib/evmPortfolio.ts\<close>)\<close>

record Network =
  net_chainId :: string
  net_networkId :: string
  net_chain :: string

definition SUPPORTED_NETWORKS :: "Network list" where
  "SUPPORTED_NETWORKS =
     [\<lparr> net_chainId = ''1'', net_networkId = ''eth-mainnet'', net_chain = ''ethereum'' \<rparr>,
      \<lparr> net_chainId = ''42161'', net_networkId = ''arb-mainnet'', net_chain = ''arbitrum'' \<rparr>,
      \<lparr> net_chainId = ''56'', net_networkId = ''bnb-mainnet'', net_chain = ''bsc'' \<rparr>,
      \<lparr> net_chainId = ''8453'', net_networkId = ''base-mainnet'', net_chain = ''base'' \<rparr>,
      \<lparr> net_chainId = ''480'', net_networkId = ''worldchain-mainnet'', net_chain = ''worldchain'' \<rparr>]"

text \<open>
  \<open>TokenMetadataSchema\<close> and \<open>TokenSchema\<close>: a field that is nullable or optional is an
  option.  \<open>tokenBalance\<close> holds the value of \<open>BigInt(token.tokenBalance)\<close>; the prices of
  the response are not read by the code.
\<close>

record AlchemyTokenMetadata =
  md_symbol :: "string option"
  md_decimals :: "int option"
  md_name :: "string option"
  md_logo :: "string option"

record AlchemyToken =
  tok_network :: string
  tokenAddress :: "string option"
  tokenBalance :: int
  tokenMetadata :: "AlchemyTokenMetadata option"

text \<open>
  Modelled from the spec: \<open>TokenMetadata\<close> of \<open>lib/types\<close>, which is not among the
  sources, with the attributes of the data model; the optional \<open>volume24h\<close> is never set
  by this file and is left out.  \<open>tm_chainId\<close> is the result of \<open>parseInt\<close>, \<open>None\<close> for
  \<open>NaN\<close>.  \<open>LifiToken\<close> (\<open>LifiTokenSchema\<close> of \<open>lib/types\<close>, not among the sources
  either) has the fields that this file reads, each possibly absent.
\<close>

record TokenMetadata =
  tm_address :: string
  tm_name :: string
  tm_symbol :: string
  tm_decimals :: int
  tm_logoURI :: string
  tm_chainId :: "int option"

record LifiToken =
  lifi_name :: "string option"
  lifi_symbol :: "string option"
  lifi_decimals :: "int option"
  lifi_logoURI :: "string option"

definition ZERO_ADDRESS :: string where
  "ZERO_ADDRESS = ''0x0000000000000000000000000000000000000000''"

text \<open>\<open>parseInt\<close> on a string of decimal digits, as the chain ids of the networks are.\<close>

definition digitValue :: "char \<Rightarrow> int" where
  "digitValue c = int (length (takeWhile (\<lambda>d. d \<noteq> c) ''0123456789''))"

definition parseInt :: "string \<Rightarrow> int option" where
  "parseInt s =
     (let digits = takeWhile isDigit s
      in if digits = [] then None
         else Some (foldl (\<lambda>n c. 10 * n + digitValue c) 0 digits))"

text \<open>
  Modelled from the spec: \<open>tokenMetadataCache\<close> of \<open>lib/localStorage\<close>, which is not among
  the sources.  It is a key-value store with \<open>get(key)\<close> and \<open>set(key, value)\<close>, queried
  by exact key only, whose metadata entries do not expire.  How that store compares the
  letter case of keys cannot be read off the sources, and no statement below rests on it.
\<close>

type_synonym metadataCache = "string \<rightharpoonup> TokenMetadata"

definition cacheGet :: "metadataCache \<Rightarrow> string \<Rightarrow> TokenMetadata option" where
  "cacheGet cache k = cache k"

definition cacheSet :: "metadataCache \<Rightarrow> string \<Rightarrow> TokenMetadata \<Rightarrow> metadataCache" where
  "cacheSet cache k v = cache (k \<mapsto> v)"

text \<open>\<open>token.tokenAddress || "0x0000000000000000000000000000000000000000"\<close>\<close>

definition addressOf :: "AlchemyToken \<Rightarrow> string" where
  "addressOf token =
     (case tokenAddress token of
        Some a \<Rightarrow> if a \<noteq> [] then a else ZERO_ADDRESS
      | None \<Rightarrow> ZERO_ADDRESS)"

text \<open>The template literal \<open>`${address}-${network.chainId}`\<close>.\<close>

definition cacheKey :: "string \<Rightarrow> string \<Rightarrow> string" where
  "cacheKey addr chainId = addr @ ''-'' @ chainId"

text \<open>
  The metadata built from the inline metadata when it is complete: present, with
  truthy \<open>name\<close>, \<open>symbol\<close>, \<open>decimals\<close> and \<open>logo\<close>.
\<close>

definition inlineMetadata :: "AlchemyToken \<Rightarrow> Network \<Rightarrow> TokenMetadata option" where
  "inlineMetadata token network =
     (case tokenMetadata token of
        None \<Rightarrow> None
      | Some md \<Rightarrow>
          (case (md_name md, md_symbol md, md_decimals md, md_logo md) of
             (Some n, Some s, Some d, Some l) \<Rightarrow>
               if n \<noteq> [] \<and> s \<noteq> [] \<and> d \<noteq> 0 \<and> l \<noteq> []
               then Some \<lparr> tm_address = addressOf token, tm_name = n, tm_symbol = s,
                           tm_decimals = d, tm_logoURI = l,
                           tm_chainId = parseInt (net_chainId network) \<rparr>
               else None
           | _ \<Rightarrow> None))"

text \<open>
  The fallback: \<open>getAnyToken(getAddress(address), network.chainId)\<close>.  The parameter
  \<open>getAddress\<close> is the checksum function of viem, \<open>None\<close> where it throws, which the
  \<open>catch\<close> turns into \<open>null\<close>; \<open>getAnyToken\<close> gives the awaited result of the lookup,
  \<open>None\<close> for \<open>null\<close>.
\<close>

definition orEmpty :: "string option \<Rightarrow> string" where
  "orEmpty s = (case s of Some v \<Rightarrow> v | None \<Rightarrow> [])"

definition fallbackMetadata ::
  "(string \<Rightarrow> string option) \<Rightarrow> (string \<Rightarrow> string \<Rightarrow> LifiToken option) \<Rightarrow>
   AlchemyToken \<Rightarrow> Network \<Rightarrow> metadataCache \<Rightarrow> TokenMetadata option \<times> metadataCache" where
  "fallbackMetadata getAddress getAnyToken token network cache =
     (case getAddress (addressOf token) of
        None \<Rightarrow> (None, cache)
      | Some checksummed \<Rightarrow>
          (case getAnyToken checksummed (net_chainId network) of
             None \<Rightarrow> (None, cache)
           | Some metadata \<Rightarrow>
               (case lifi_decimals metadata of
                  None \<Rightarrow> (None, cache)
                | Some d \<Rightarrow>
                    if d = 0 then (None, cache)
                    else
                      (let tokenMetadata' =
                         \<lparr> tm_address = addressOf token, tm_name = orEmpty (lifi_name metadata),
                           tm_symbol = orEmpty (lifi_symbol metadata), tm_decimals = d,
                           tm_logoURI = orEmpty (lifi_logoURI metadata),
                           tm_chainId = parseInt (net_chainId network) \<rparr>
                       in (Some tokenMetadata',
                           cacheSet cache (cacheKey (addressOf token) (net_chainId network))
                             tokenMetadata')))))"

definition enrichTokenMetadata ::
  "(string \<Rightarrow> string option) \<Rightarrow> (string \<Rightarrow> string \<Rightarrow> LifiToken option) \<Rightarrow>
   AlchemyToken \<Rightarrow> Network \<Rightarrow> metadataCache \<Rightarrow> TokenMetadata option \<times> metadataCache" where
  "enrichTokenMetadata getAddress getAnyToken token network cache =
     (case cacheGet cache (cacheKey (addressOf token) (net_chainId network)) of
        Some cachedMetadata \<Rightarrow> (Some cachedMetadata, cache)
      | None \<Rightarrow>
          (case inlineMetadata token network of
             Some metadata \<Rightarrow>
               (Some metadata,
                cacheSet cache (cacheKey (addressOf token) (net_chainId network)) metadata)
           | None \<Rightarrow> fallbackMetadata getAddress getAnyToken token network cache))"

text \<open>
  One token of \<open>getTokenHoldings\<close> after the balance and denylist filters: the network is
  looked up, the metadata resolved and the balance converted; \<open>None\<close> is the \<open>null\<close> that
  the next filter removes from the portfolio.
\<close>

record ResolvedToken =
  rt_metadata :: TokenMetadata
  rt_amount :: real
  rt_chain :: string
  rt_address :: string

definition resolveToken ::
  "(string \<Rightarrow> string option) \<Rightarrow> (string \<Rightarrow> string \<Rightarrow> LifiToken option) \<Rightarrow>
   AlchemyToken \<Rightarrow> metadataCache \<Rightarrow> ResolvedToken option \<times> metadataCache" where
  "resolveToken getAddress getAnyToken token cache =
     (case find (\<lambda>n. net_networkId n = tok_network token) SUPPORTED_NETWORKS of
        None \<Rightarrow> (None, cache)
      | Some network \<Rightarrow>
          (case enrichTokenMetadata getAddress getAnyToken token network cache of
             (None, cache') \<Rightarrow> (None, cache')
           | (Some metadata, cache') \<Rightarrow>
               (Some \<lparr> rt_metadata = metadata,
                        rt_amount = real_of_int (tokenBalance token) / 10 powi tm_decimals metadata,
                        rt_chain = net_chain network,
                        rt_address = addressOf token \<rparr>, cache')))"

text \<open>The writers of the cache never store metadata with \<open>decimals = 0\<close>.\<close>

definition cacheInv :: "metadataCache \<Rightarrow> bool" where
  "cacheInv cache \<longleftrightarrow> (\<forall>k m. cache k = Some m \<longrightarrow> tm_decimals m \<noteq> 0)"

subsection \<open>Concrete tokens\<close>

definition checksumTable :: "string \<Rightarrow> string option" where
  "checksumTable a = (if length a = 42 \<and> take 2 a = ''0x'' then Some a else None)"

definition noLookup :: "string \<Rightarrow> string \<Rightarrow> LifiToken option" where
  "noLookup token chainId = None"

definition zeroDecimalsLookup :: "string \<Rightarrow> string \<Rightarrow> LifiToken option" where
  "zeroDecimalsLookup token chainId =
     Some \<lparr> lifi_name = Some ''Receipt'', lifi_symbol = Some ''RCPT'', lifi_decimals = Some 0,
            lifi_logoURI = None \<rparr>"

definition zeroDecimalsToken :: AlchemyToken where
  "zeroDecimalsToken =
     \<lparr> tok_network = ''eth-mainnet'',
       tokenAddress = Some ''0x1111111111111111111111111111111111111111'',
       tokenBalance = 5,
       tokenMetadata = Some \<lparr> md_symbol = Some ''RCPT'', md_decimals = Some 0,
                               md_name = Some ''Receipt'', md_logo = Some ''rcpt.png'' \<rparr> \<rparr>"

definition checksummedToken :: AlchemyToken where
  "checksummedToken =
     \<lparr> tok_network = ''eth-mainnet'',
       tokenAddress = Some ''0xA0b86991c6218b36c1d19D4a2e9Eb0cE3606eB48'',
       tokenBalance = 25000000,
       tokenMetadata = Some \<lparr> md_symbol = Some ''USDC'', md_decimals = Some 6,
                               md_name = Some ''USD Coin'', md_logo = Some ''usdc.png'' \<rparr> \<rparr>"

definition lowercaseToken :: AlchemyToken where
  "lowercaseToken =
     \<lparr> tok_network = ''eth-mainnet'',
       tokenAddress = Some ''0xa0b86991c6218b36c1d19d4a2e9eb0ce3606eb48'',
       tokenBalance = 25000000,
       tokenMetadata = None \<rparr>"

definition ethMainnet :: Network where
  "ethMainnet = \<lparr> net_chainId = ''1'', net_networkId = ''eth-mainnet'', net_chain = ''ethereum'' \<rparr>"


definition usdcMetadata :: TokenMetadata where
  "usdcMetadata = \<lparr> tm_address = ''0xa0b86991c6218b36c1d19d4a2e9eb0ce3606eb48'',
     tm_name = ''USD Coin'', tm_symbol = ''USDC'', tm_decimals = 6, tm_logoURI = ''usdc.png'',
     tm_chainId = Some 1 \<rparr>"

definition usdcChecksummed :: TokenMetadata where
  "usdcChecksummed = \<lparr> tm_address = ''0xA0b86991c6218b36c1d19D4a2e9Eb0cE3606eB48'',
     tm_name = ''USD Coin'', tm_symbol = ''USDC'', tm_decimals = 6, tm_logoURI = ''usdc.png'',
     tm_chainId = Some 1 \<rparr>"


section \<open>The rate limiter (\<open>RateLimiter\<close>)\<close>

text \<open>
  \<open>options\<close> is the record that the constructor stores: \<open>retryAfterMs\<close> and \<open>maxRetries\<close>
  default to 1000 and 3 when they are absent or 0 (\<open>||\<close>).  The options are whole
  numbers, as those of the one limiter that the repository constructs, and so are the
  time stamps of \<open>Date.now()\<close>.
\<close>

record RateLimiterOptions =
  maxRequests :: int
  windowMs :: int
  retryAfterMs :: int
  maxRetries :: int

definition newRateLimiter :: "int \<Rightarrow> int \<Rightarrow> int option \<Rightarrow> int option \<Rightarrow> RateLimiterOptions" where
  "newRateLimiter maxReq window retryAfter retries =
     \<lparr> maxRequests = maxReq, windowMs = window,
       retryAfterMs = (case retryAfter of Some v \<Rightarrow> if v \<noteq> 0 then v else 1000 | None \<Rightarrow> 1000),
       maxRetries = (case retries of Some v \<Rightarrow> if v \<noteq> 0 then v else 3 | None \<Rightarrow> 3) \<rparr>"

definition jupiterRateLimiter :: RateLimiterOptions where
  "jupiterRateLimiter = newRateLimiter 10 1000 (Some 2000) (Some 3)"

definition cleanupOldRequests :: "RateLimiterOptions \<Rightarrow> int \<Rightarrow> int list \<Rightarrow> int list" where
  "cleanupOldRequests options now reqs = filter (\<lambda>ts. now - ts < windowMs options) reqs"

text \<open>
  The value an operation rejects with, as far as \<open>execute\<close> looks at it: its \<open>message\<close>
  and its \<open>status\<close>, each possibly absent.
\<close>

record JsError =
  err_message :: "string option"
  err_status :: "int option"

definition isRateLimitError :: "JsError \<Rightarrow> bool" where
  "isRateLimitError error \<longleftrightarrow>
     (case err_message error of Some m \<Rightarrow> str_includes m ''429'' | None \<Rightarrow> False)
     \<or> err_status error = Some 429"

datatype 'a settled = Resolved 'a | Rejected JsError

text \<open>
  What \<open>execute\<close> throws: the error of the operation, rethrown, or the error of the last
  line, \<open>Failed after ${maxRetries} retries\<close>.
\<close>

datatype failure = OperationError JsError | FailedAfterRetries int

text \<open>
  \<open>execute\<close> is an asynchronous function: between two \<open>await\<close>s it runs without
  interruption, and at an \<open>await\<close> other calls run.  A call is at the head of the loop
  with its counter \<open>retries\<close>, or suspended in \<open>await fn()\<close>, or suspended in
  \<open>await this.wait(ms)\<close> with the time at which the timer is due, or it has returned or
  thrown.
\<close>

datatype 'a call =
    LoopHead int
  | AwaitFn int
  | AwaitWait int int
  | Returned 'a
  | Thrown failure

text \<open>\<open>Math.min(...this.requests)\<close>, \<open>None\<close> for the \<open>Infinity\<close> of an empty list.\<close>

fun minOf :: "int list \<Rightarrow> int option" where
  "minOf [] = None"
| "minOf (x # xs) = Some (fold min xs x)"

text \<open>
  One pass from the head of the loop to the next \<open>await\<close> (or to the next pass, when the
  computed wait time is not positive).  \<open>t1\<close> is the \<open>Date.now()\<close> of
  \<open>cleanupOldRequests\<close> and \<open>t2\<close> the \<open>Date.now()\<close> read after it, by \<open>push\<close> or for
  \<open>waitTime\<close>.  The result is the new list \<open>this.requests\<close> and the new state of the call.
\<close>

definition admits :: "RateLimiterOptions \<Rightarrow> int \<Rightarrow> int list \<Rightarrow> int \<Rightarrow> bool" where
  "admits options t1 reqs retries \<longleftrightarrow>
     retries \<le> maxRetries options
     \<and> int (length (cleanupOldRequests options t1 reqs)) < maxRequests options"

definition attempt ::
  "RateLimiterOptions \<Rightarrow> int \<Rightarrow> int \<Rightarrow> int list \<Rightarrow> int \<Rightarrow> int list \<times> 'a call" where
  "attempt options t1 t2 reqs retries =
     (if retries \<le> maxRetries options then
        (let reqs' = cleanupOldRequests options t1 reqs in
         if int (length reqs') < maxRequests options then (reqs' @ [t2], AwaitFn retries)
         else
           (case minOf reqs' of
              None \<Rightarrow> (reqs', AwaitWait retries t2)
            | Some oldestRequest \<Rightarrow>
                (let waitTime = windowMs options - (t2 - oldestRequest) + 100
                 in if waitTime > 0 then (reqs', AwaitWait retries (t2 + waitTime))
                    else (reqs', LoopHead retries))))
      else (reqs, Thrown (FailedAfterRetries (maxRetries options))))"

text \<open>What follows when \<open>await fn()\<close> settles at time \<open>now\<close>: the \<open>try\<close> and its \<open>catch\<close>.\<close>

definition afterFn :: "RateLimiterOptions \<Rightarrow> int \<Rightarrow> int \<Rightarrow> 'a settled \<Rightarrow> 'a call" where
  "afterFn options now retries outcome =
     (case outcome of
        Resolved result \<Rightarrow> Returned result
      | Rejected error \<Rightarrow>
          if isRateLimitError error then
            (let retries' = retries + 1 in
             if retries' > maxRetries options then Thrown (OperationError error)
             else (let backoffTime = retryAfterMs options * 2 ^ nat (retries' - 1)
                   in AwaitWait retries' (now + backoffTime)))
          else Thrown (OperationError error))"

subsection \<open>Interleaved calls\<close>

text \<open>
  The limiter with the calls in flight.  \<open>clock\<close> is the latest time read or passed;
  the clock never runs backwards.  \<open>admitted\<close> and \<open>rejections\<close> are histories kept for
  the statements only: every time stamp ever pushed, and for each call the errors its
  operation has rejected with.
\<close>

record 'a limiter =
  clock :: int
  requests :: "int list"
  admitted :: "int list"
  calls :: "'a call list"
  rejections :: "JsError list list"

definition initialLimiter :: "int \<Rightarrow> 'a limiter" where
  "initialLimiter t0 = \<lparr> clock = t0, requests = [], admitted = [], calls = [], rejections = [] \<rparr>"

text \<open>
  What the environment decides: a new call of \<open>execute\<close>; call \<open>i\<close> runs a pass of its
  loop, reading the clock as \<open>t1\<close> and then as \<open>t2\<close>; the operation of call \<open>i\<close> settles
  at time \<open>t\<close>; the timer of call \<open>i\<close> fires at time \<open>t\<close>, not before it is due.
\<close>

datatype 'a event =
    Start
  | Run nat int int
  | Settle nat int "'a settled"
  | Wake nat int

definition applyEvent :: "RateLimiterOptions \<Rightarrow> 'a limiter \<Rightarrow> 'a event \<Rightarrow> 'a limiter option" where
  "applyEvent options s ev =
     (case ev of
        Start \<Rightarrow>
          Some (s\<lparr> calls := calls s @ [LoopHead 0], rejections := rejections s @ [[]] \<rparr>)
      | Run i t1 t2 \<Rightarrow>
          if i < length (calls s) \<and> clock s \<le> t1 \<and> t1 \<le> t2 then
            (case calls s ! i of
               LoopHead retries \<Rightarrow>
                 (case attempt options t1 t2 (requests s) retries of
                    (reqs', c') \<Rightarrow>
                      Some (s\<lparr> clock := t2, requests := reqs',
                               admitted := (if admits options t1 (requests s) retries
                                            then admitted s @ [t2] else admitted s),
                               calls := (calls s)[i := c'] \<rparr>))
             | _ \<Rightarrow> None)
          else None
      | Settle i t outcome \<Rightarrow>
          if i < length (calls s) \<and> clock s \<le> t then
            (case calls s ! i of
               AwaitFn retries \<Rightarrow>
                 Some (s\<lparr> clock := t,
                          calls := (calls s)[i := afterFn options t retries outcome],
                          rejections :=
                            (case outcome of
                               Rejected error \<Rightarrow>
                                 (rejections s)[i := rejections s ! i @ [error]]
                             | Resolved result \<Rightarrow> rejections s) \<rparr>)
             | _ \<Rightarrow> None)
          else None
      | Wake i t \<Rightarrow>
          if i < length (calls s) \<and> clock s \<le> t then
            (case calls s ! i of
               AwaitWait retries wakeAt \<Rightarrow>
                 if wakeAt \<le> t then Some (s\<lparr> clock := t, calls := (calls s)[i := LoopHead retries] \<rparr>)
                 else None
             | _ \<Rightarrow> None)
          else None)"

fun run :: "RateLimiterOptions \<Rightarrow> 'a limiter \<Rightarrow> 'a event list \<Rightarrow> 'a limiter option" where
  "run options s [] = Some s"
| "run options s (ev # evs) =
     (case applyEvent options s ev of
        None \<Rightarrow> None
      | Some s' \<Rightarrow> run options s' evs)"

subsection \<open>Concrete runs\<close>

definition tooManyRequests :: JsError where
  "tooManyRequests = \<lparr> err_message = Some ''Failed to fetch batch metadata'', err_status = Some 429 \<rparr>"

definition serverError :: JsError where
  "serverError = \<lparr> err_message = Some ''Failed to fetch batch metadata'', err_status = Some 500 \<rparr>"

text \<open>One call under the limiter of the Jupiter API whose operation is rejected with status 429 every time.\<close>

definition alwaysRateLimited :: "unit event list" where
  "alwaysRateLimited =
     [Start,
      Run 0 0 0, Settle 0 40 (Rejected tooManyRequests), Wake 0 2040,
      Run 0 2040 2040, Settle 0 2080 (Rejected tooManyRequests), Wake 0 6080,
      Run 0 6080 6080, Settle 0 6120 (Rejected tooManyRequests), Wake 0 14120,
      Run 0 14120 14120, Settle 0 14160 (Rejected tooManyRequests)]"

text \<open>Two calls under a limiter of one request per second: the second waits for the window.\<close>

definition onePerSecond :: RateLimiterOptions where
  "onePerSecond = newRateLimiter 1 1000 None None"

definition twoCalls :: "unit event list" where
  "twoCalls =
     [Start, Start,
      Run 0 0 0, Run 1 500 500, Settle 0 700 (Resolved ()),
      Wake 1 1100, Run 1 1100 1101, Settle 1 1300 (Resolved ())]"


subsection \<open>Invariants of the limiter\<close>

text \<open>The half-open window of length \<open>windowMs\<close> that ends at \<open>x + windowMs\<close>.\<close>

definition inWindow :: "RateLimiterOptions \<Rightarrow> int \<Rightarrow> int \<Rightarrow> bool" where
  "inWindow options x ts \<longleftrightarrow> x < ts \<and> ts \<le> x + windowMs options"

text \<open>
  The list \<open>this.requests\<close> and the history of admissions agree on the time stamps that
  are still inside the window, and no window holds more than \<open>maxRequests\<close> admissions.
\<close>

definition windowInv :: "RateLimiterOptions \<Rightarrow> 'a limiter \<Rightarrow> bool" where
  "windowInv options s \<longleftrightarrow>
     cleanupOldRequests options (clock s) (requests s) =
       cleanupOldRequests options (clock s) (admitted s)
     \<and> (\<forall>x. length (filter (inWindow options x) (admitted s)) \<le> nat (maxRequests options))"

text \<open>
  The counter \<open>retries\<close> of a call counts the rate-limit rejections of its operation, and
  a call that has thrown has thrown the last error of its operation.
\<close>

definition rateLimitCount :: "JsError list \<Rightarrow> int" where
  "rateLimitCount errors = int (length (filter isRateLimitError errors))"

definition callInv :: "RateLimiterOptions \<Rightarrow> 'a call \<Rightarrow> JsError list \<Rightarrow> bool" where
  "callInv options c errors =
     (case c of
        LoopHead r \<Rightarrow> r = int (length errors) \<and> list_all isRateLimitError errors
                        \<and> r \<le> maxRetries options
      | AwaitFn r \<Rightarrow> r = int (length errors) \<and> list_all isRateLimitError errors
                        \<and> r \<le> maxRetries options
      | AwaitWait r wakeAt \<Rightarrow> r = int (length errors) \<and> list_all isRateLimitError errors
                        \<and> r \<le> maxRetries options
      | Returned v \<Rightarrow> rateLimitCount errors \<le> maxRetries options
      | Thrown f \<Rightarrow>
          (case f of
             OperationError e \<Rightarrow>
               errors \<noteq> [] \<and> e = last errors
               \<and> (if isRateLimitError e then rateLimitCount errors = maxRetries options + 1
                   else rateLimitCount errors \<le> maxRetries options)
           | FailedAfterRetries n \<Rightarrow> False))"

definition callsInv :: "RateLimiterOptions \<Rightarrow> 'a limiter \<Rightarrow> bool" where
  "callsInv options s \<longleftrightarrow> list_all2 (callInv options) (calls s) (rejections s)"

text \<open>The final states of the two concrete runs.\<close>

definition alwaysRateLimitedEnd :: "unit limiter" where
  "alwaysRateLimitedEnd =
     \<lparr> clock = 14160, requests = [14120], admitted = [0, 2040, 6080, 14120],
       calls = [Thrown (OperationError tooManyRequests)],
       rejections = [[tooManyRequests, tooManyRequests, tooManyRequests, tooManyRequests]] \<rparr>"

definition twoCallsEnd :: "unit limiter" where
  "twoCallsEnd =
     \<lparr> clock = 1300, requests = [1101], admitted = [0, 1101],
       calls = [Returned (), Returned ()], rejections = [[], []] \<rparr>"

text \<open>
  The run of the two calls after its first three events, the first call admitted and
  the second at the head of its loop, and after the fourth, the second call waiting.
\<close>

definition twoCallsAdmitted :: "unit limiter" where
  "twoCallsAdmitted =
     \<lparr> clock = 0, requests = [0], admitted = [0],
       calls = [AwaitFn 0, LoopHead 0], rejections = [[], []] \<rparr>"

definition twoCallsWaiting :: "unit limiter" where
  "twoCallsWaiting =
     \<lparr> clock = 500, requests = [0], admitted = [0],
       calls = [AwaitFn 0, AwaitWait 0 1100], rejections = [[], []] \<rparr>"




section \<open>Properties of the aggregation\<close>

lemma toUpperCase_table_keys:
  "toUpperCase ''WETH'' = ''WETH''" "toUpperCase ''ETH'' = ''ETH''"
  "toUpperCase ''USDC'' = ''USDC''"
  by (simp_all add: toUpperCase_def toUpperChar_def)

text \<open>
  Claim C2.  On the two items of the specification, a WETH holding on ethereum and an
  ETH holding on arbitrum, each of amount 1 at price 2000 with 24h changes 5 and -5
  (every other field arbitrary), the aggregation returns exactly one item: symbol ETH,
  amount 2, price 2000, 24h change 0, chains ethereum and arbitrum.
\<close>

theorem aggregate_spec_example:
  "\<exists>g. aggregatePortfolioItems
          [a\<lparr> symbol := ''WETH'', chain := ''ethereum'', amount := 1, price := 2000,
              priceChange24h := 5 \<rparr>,
           b\<lparr> symbol := ''ETH'', chain := ''arbitrum'', amount := 1, price := 2000,
              priceChange24h := - 5 \<rparr>] = [g]
      \<and> symbol g = ''ETH'' \<and> amount g = 2 \<and> price g = 2000 \<and> priceChange24h g = 0
      \<and> chains g = [''ethereum'', ''arbitrum'']"
  by (simp add: aggregatePortfolioItems_def aggregationMapOf_def aggregateStep_def
      toUpperCase_table_keys SYMBOL_AGGREGATION_MAP_def seedItem_def mergeItem_def
      spreadItem_def totalValueOf_def totalAmountOf_def totalChangeOf_def Let_def)

subsection \<open>An invariant principle for the loop over the items\<close>

lemma set_update_cases:
  "x \<in> set (AList.update k v al) \<Longrightarrow> x = (k, v) \<or> x \<in> set al"
  by (induction al) (auto split: if_splits)

lemma aggregateStep_cases:
  assumes "(k, g) \<in> set (aggregateStep item m)"
  shows "(k, g) \<in> set m
       \<or> (\<exists>c. SYMBOL_AGGREGATION_MAP (toUpperCase (symbol item)) = Some c \<and> k = c \<and>
              map_of m c = None \<and> g = seedItem c item)
       \<or> (\<exists>c e. SYMBOL_AGGREGATION_MAP (toUpperCase (symbol item)) = Some c \<and> k = c \<and>
              (c, e) \<in> set m \<and> g = mergeItem e item)
       \<or> (SYMBOL_AGGREGATION_MAP (toUpperCase (symbol item)) = None \<and>
              k = symbol item @ ''-'' @ chain item \<and> g = spreadItem item [chain item] [item] False)"
  using assms
  by (auto simp: aggregateStep_def Let_def split: option.splits dest!: set_update_cases map_of_SomeD)

lemma aggregate_fold_invariant:
  assumes seed: "\<And>c item. item \<in> set items \<Longrightarrow>
             SYMBOL_AGGREGATION_MAP (toUpperCase (symbol item)) = Some c \<Longrightarrow> P c (seedItem c item)"
    and merge: "\<And>c e item. item \<in> set items \<Longrightarrow>
             SYMBOL_AGGREGATION_MAP (toUpperCase (symbol item)) = Some c \<Longrightarrow> P c e \<Longrightarrow>
             P c (mergeItem e item)"
    and plain: "\<And>item. item \<in> set items \<Longrightarrow>
             SYMBOL_AGGREGATION_MAP (toUpperCase (symbol item)) = None \<Longrightarrow>
             P (symbol item @ ''-'' @ chain item) (spreadItem item [chain item] [item] False)"
  shows "set its \<subseteq> set items \<Longrightarrow> (\<And>k g. (k, g) \<in> set m \<Longrightarrow> P k g) \<Longrightarrow>
         (k, g) \<in> set (fold aggregateStep its m) \<Longrightarrow> P k g"
proof (induction its arbitrary: m)
  case Nil
  then show ?case by simp
next
  case (Cons item its)
  have item: "item \<in> set items" and its: "set its \<subseteq> set items"
    using Cons.prems(1) by auto
  have step: "P k' g'" if "(k', g') \<in> set (aggregateStep item m)" for k' g'
    using aggregateStep_cases [OF that] Cons.prems(2) seed [OF item] merge [OF item] plain [OF item]
    by blast
  from Cons.prems(3) have "(k, g) \<in> set (fold aggregateStep its (aggregateStep item m))"
    by simp
  from Cons.IH [OF its step this] show ?case .
qed

lemma aggregate_invariant:
  assumes g: "g \<in> set (aggregatePortfolioItems items)"
    and seed: "\<And>c item. item \<in> set items \<Longrightarrow>
             SYMBOL_AGGREGATION_MAP (toUpperCase (symbol item)) = Some c \<Longrightarrow> P c (seedItem c item)"
    and merge: "\<And>c e item. item \<in> set items \<Longrightarrow>
             SYMBOL_AGGREGATION_MAP (toUpperCase (symbol item)) = Some c \<Longrightarrow> P c e \<Longrightarrow>
             P c (mergeItem e item)"
    and plain: "\<And>item. item \<in> set items \<Longrightarrow>
             SYMBOL_AGGREGATION_MAP (toUpperCase (symbol item)) = None \<Longrightarrow>
             P (symbol item @ ''-'' @ chain item) (spreadItem item [chain item] [item] False)"
  shows "\<exists>k. (k, g) \<in> set (aggregationMapOf items) \<and> P k g"
proof -
  from g obtain k where k: "(k, g) \<in> set (fold aggregateStep items [])"
    unfolding aggregatePortfolioItems_def aggregationMapOf_def by force
  have "P k g"
  proof (rule aggregate_fold_invariant [where P = P and items = items and its = items and m = "[]"])
    show "(k, g) \<in> set (fold aggregateStep items [])" by (rule k)
  qed (use seed merge plain in simp_all)
  with k show ?thesis unfolding aggregationMapOf_def by blast
qed

subsection \<open>Field values of the three kinds of entries\<close>

lemma foldl_add_sum_list:
  "foldl (\<lambda>s i. s + f i) (a::real) xs = a + sum_list (map f xs)"
  by (induction xs arbitrary: a) (simp_all add: algebra_simps)

lemma totalAmountOf_sum: "totalAmountOf ois = (\<Sum>i\<leftarrow>ois. amount i)"
  by (simp add: totalAmountOf_def foldl_add_sum_list)

lemma totalValueOf_sum: "totalValueOf ois = (\<Sum>i\<leftarrow>ois. price i * amount i)"
  by (simp add: totalValueOf_def foldl_add_sum_list)

lemma totalChangeOf_sum: "totalChangeOf ois = (\<Sum>i\<leftarrow>ois. priceChange24h i * amount i)"
  by (simp add: totalChangeOf_def foldl_add_sum_list)

lemma seedItem_fields:
  "amount (seedItem c item) = amount item"
  "originalItems (seedItem c item) = [item]"
  "price (seedItem c item) = price item"
  "priceChange24h (seedItem c item) = priceChange24h item"
  "symbol (seedItem c item) = c"
  "chain (seedItem c item) = chain item"
  "chains (seedItem c item) = [chain item]"
  "isAggregated (seedItem c item) = True"
  by (simp_all add: seedItem_def spreadItem_def)

lemma spreadItem_fields:
  "amount (spreadItem item cs ois b) = amount item"
  "originalItems (spreadItem item cs ois b) = ois"
  "price (spreadItem item cs ois b) = price item"
  "priceChange24h (spreadItem item cs ois b) = priceChange24h item"
  "symbol (spreadItem item cs ois b) = symbol item"
  "chain (spreadItem item cs ois b) = chain item"
  "chains (spreadItem item cs ois b) = cs"
  "isAggregated (spreadItem item cs ois b) = b"
  by (simp_all add: spreadItem_def)

lemma mergeItem_fields:
  "amount (mergeItem e item) = amount e + amount item"
  "originalItems (mergeItem e item) = originalItems e @ [item]"
  "price (mergeItem e item) =
     (if totalAmountOf (originalItems e @ [item]) > 0
      then totalValueOf (originalItems e @ [item]) / totalAmountOf (originalItems e @ [item]) else 0)"
  "priceChange24h (mergeItem e item) =
     (if totalAmountOf (originalItems e @ [item]) > 0
      then totalChangeOf (originalItems e @ [item]) / totalAmountOf (originalItems e @ [item]) else 0)"
  "symbol (mergeItem e item) = symbol e"
  "chain (mergeItem e item) = chain e"
  "isAggregated (mergeItem e item) = isAggregated e"
  by (simp_all add: mergeItem_def Let_def)

lemma aggregate_weth_eth:
  "aggregatePortfolioItems [wethItem, ethItem] = [mergeItem (seedItem ''ETH'' wethItem) ethItem]"
proof -
  have "symbol wethItem = ''WETH''" "symbol ethItem = ''ETH''"
    by (simp_all add: wethItem_def ethItem_def)
  then show ?thesis
    by (simp add: aggregatePortfolioItems_def aggregationMapOf_def aggregateStep_def
        SYMBOL_AGGREGATION_MAP_def toUpperCase_table_keys Let_def)
qed

lemma aggregate_lone_usdc:
  "aggregatePortfolioItems [loneUsdc] = [seedItem ''USDC'' loneUsdc]"
proof -
  have "symbol loneUsdc = ''USDC''" by (simp add: loneUsdc_def)
  then show ?thesis
    by (simp add: aggregatePortfolioItems_def aggregationMapOf_def aggregateStep_def
      SYMBOL_AGGREGATION_MAP_def toUpperCase_table_keys)
qed

subsection \<open>Amounts and weighted averages of a group\<close>

lemma groupInv_seed: "groupInv (seedItem c item)"
  by (simp add: groupInv_def seedItem_fields totalAmountOf_def)

lemma groupInv_plain: "groupInv (spreadItem item cs [item] b)"
  by (simp add: groupInv_def spreadItem_fields totalAmountOf_def)

lemma groupInv_merge: "groupInv e \<Longrightarrow> groupInv (mergeItem e item)"
  unfolding groupInv_def mergeItem_fields
  by (cases "originalItems e") (simp_all add: totalAmountOf_sum)

lemma aggregate_groupInv:
  assumes "g \<in> set (aggregatePortfolioItems items)" shows "groupInv g"
  using aggregate_invariant [OF assms, where P = "\<lambda>k. groupInv"]
    groupInv_seed groupInv_plain groupInv_merge by blast

lemma aggregate_originalItems_subset:
  assumes "g \<in> set (aggregatePortfolioItems items)"
  shows "set (originalItems g) \<subseteq> set items"
  using aggregate_invariant [OF assms, where P = "\<lambda>k g. set (originalItems g) \<subseteq> set items"]
  by (simp add: seedItem_fields mergeItem_fields spreadItem_fields)

lemma sum_list_amount_nonneg:
  "\<forall>i\<in>set ois. 0 \<le> amount i \<Longrightarrow> 0 \<le> (\<Sum>i\<leftarrow>ois. amount i)"
  by (induction ois) auto

text \<open>
  Claim C3, as the specification states it, fails: a group of a single item is the item
  itself, and its price is not recomputed.  An item of amount 0 and price 5 comes back
  with price 5, where the claim asks for 0.
\<close>

theorem single_item_price_not_recomputed:
  "aggregatePortfolioItems [idleItem] = [spreadItem idleItem [''base''] [idleItem] False]
   \<and> \<not> spec_weightedAverageInvariant (spreadItem idleItem [''base''] [idleItem] False)"
  by (simp add: aggregatePortfolioItems_def aggregationMapOf_def aggregateStep_def
      SYMBOL_AGGREGATION_MAP_def toUpperCase_def toUpperChar_def idleItem_def
      spec_weightedAverageInvariant_def spec_weightedAverage_def spreadItem_def)

text \<open>
  Claim C3, amended.  For items of non-negative amounts, every returned group has at
  least one original item and its amount is the sum of their amounts.  Its price and
  24h change are the amount-weighted averages of the original items (0 when the total
  amount is 0) whenever the group has two or more original items or a positive amount;
  a group of one original item carries the price and the 24h change of that item.
\<close>

theorem aggregate_weighted_average:
  assumes nonneg: "\<forall>i\<in>set items. 0 \<le> amount i"
    and g: "g \<in> set (aggregatePortfolioItems items)"
  shows "originalItems g \<noteq> []
       \<and> amount g = (\<Sum>i\<leftarrow>originalItems g. amount i)
       \<and> (2 \<le> length (originalItems g) \<or> 0 < amount g \<longrightarrow>
            price g = spec_weightedAverage price (originalItems g) \<and>
            priceChange24h g = spec_weightedAverage priceChange24h (originalItems g))
       \<and> (length (originalItems g) = 1 \<longrightarrow>
            price g = price (hd (originalItems g)) \<and>
            priceChange24h g = priceChange24h (hd (originalItems g)))"
proof -
  from g have inv: "groupInv g" by (rule aggregate_groupInv)
  from g have "set (originalItems g) \<subseteq> set items" by (rule aggregate_originalItems_subset)
  with nonneg have "\<forall>i\<in>set (originalItems g). 0 \<le> amount i" by blast
  then have tot: "0 \<le> (\<Sum>i\<leftarrow>originalItems g. amount i)" by (rule sum_list_amount_nonneg)
  have ne: "originalItems g \<noteq> []" and am: "amount g = (\<Sum>i\<leftarrow>originalItems g. amount i)"
    using inv by (simp_all add: groupInv_def totalAmountOf_sum)
  have single: "price g = price (hd (originalItems g)) \<and>
      priceChange24h g = priceChange24h (hd (originalItems g))" if "length (originalItems g) = 1"
    using inv that by (simp add: groupInv_def)
  have avg: "price g = spec_weightedAverage price (originalItems g) \<and>
      priceChange24h g = spec_weightedAverage priceChange24h (originalItems g)"
    if h: "2 \<le> length (originalItems g) \<or> 0 < amount g"
  proof (cases "2 \<le> length (originalItems g)")
    case True
    with inv tot show ?thesis
      by (auto simp: groupInv_def spec_weightedAverage_def totalAmountOf_sum totalValueOf_sum
          totalChangeOf_sum)
  next
    case False
    with ne have one: "length (originalItems g) = 1"
      by (cases "originalItems g") (auto simp: not_le less_Suc_eq_le)
    then obtain i where i: "originalItems g = [i]" by (cases "originalItems g") auto
    from False h have pos: "0 < amount g" by simp
    with am i have "amount i > 0" by simp
    with single [OF one] i show ?thesis by (simp add: spec_weightedAverage_def)
  qed
  from ne am single avg show ?thesis by blast
qed

theorem aggregate_weighted_average_witness:
  "amount (mergeItem (seedItem ''ETH'' wethItem) ethItem) = 2
   \<and> price (mergeItem (seedItem ''ETH'' wethItem) ethItem) =
       spec_weightedAverage price [wethItem, ethItem]
   \<and> spec_weightedAverage price [wethItem, ethItem] = 2000
   \<and> priceChange24h (mergeItem (seedItem ''ETH'' wethItem) ethItem) =
       spec_weightedAverage priceChange24h [wethItem, ethItem]
   \<and> spec_weightedAverage priceChange24h [wethItem, ethItem] = 0
   \<and> originalItems (seedItem ''USDC'' loneUsdc) = [loneUsdc]
   \<and> price (seedItem ''USDC'' loneUsdc) = price loneUsdc
   \<and> priceChange24h (seedItem ''USDC'' loneUsdc) = priceChange24h loneUsdc"
proof -
  have nonneg: "\<forall>i\<in>set [wethItem, ethItem]. 0 \<le> amount i"
    by (simp add: wethItem_def ethItem_def)
  have mem: "mergeItem (seedItem ''ETH'' wethItem) ethItem
      \<in> set (aggregatePortfolioItems [wethItem, ethItem])"
    by (simp add: aggregate_weth_eth)
  have ois: "originalItems (mergeItem (seedItem ''ETH'' wethItem) ethItem) = [wethItem, ethItem]"
    by (simp add: mergeItem_fields seedItem_fields)
  have vals: "spec_weightedAverage price [wethItem, ethItem] = 2000"
    "spec_weightedAverage priceChange24h [wethItem, ethItem] = 0"
    "(\<Sum>i\<leftarrow>[wethItem, ethItem]. amount i) = 2"
    by (simp_all add: spec_weightedAverage_def wethItem_def ethItem_def)
  have nonneg': "\<forall>i\<in>set [loneUsdc]. 0 \<le> amount i" by (simp add: loneUsdc_def)
  have mem': "seedItem ''USDC'' loneUsdc \<in> set (aggregatePortfolioItems [loneUsdc])"
    by (simp add: aggregate_lone_usdc)
  have ois': "originalItems (seedItem ''USDC'' loneUsdc) = [loneUsdc]"
    by (simp add: seedItem_fields)
  from aggregate_weighted_average [OF nonneg mem]
  have merged: "amount (mergeItem (seedItem ''ETH'' wethItem) ethItem) = 2
      \<and> price (mergeItem (seedItem ''ETH'' wethItem) ethItem) =
          spec_weightedAverage price [wethItem, ethItem]
      \<and> priceChange24h (mergeItem (seedItem ''ETH'' wethItem) ethItem) =
          spec_weightedAverage priceChange24h [wethItem, ethItem]"
    unfolding ois using vals by simp
  from aggregate_weighted_average [OF nonneg' mem']
  have single: "price (seedItem ''USDC'' loneUsdc) = price loneUsdc
      \<and> priceChange24h (seedItem ''USDC'' loneUsdc) = priceChange24h loneUsdc"
    unfolding ois' by simp
  from merged single vals ois' show ?thesis by simp
qed

subsection \<open>The flag \<open>isAggregated\<close>\<close>

lemma ne_of_mem: "x \<in> set a \<Longrightarrow> x \<notin> set b \<Longrightarrow> a \<noteq> b"
  by blast

lemma canonical_cases:
  "SYMBOL_AGGREGATION_MAP x = Some c \<Longrightarrow> c = ''ETH'' \<or> c = ''USDC''"
  by (simp add: SYMBOL_AGGREGATION_MAP_def split: if_splits)

lemma plain_key_not_canonical:
  "s @ ''-'' @ c \<noteq> ''ETH''" "s @ ''-'' @ c \<noteq> ''USDC''"
proof -
  have a: "CHR ''-'' \<in> set (s @ ''-'' @ c)" by simp
  have b: "CHR ''-'' \<notin> set ''ETH''" by simp
  have c: "CHR ''-'' \<notin> set ''USDC''" by simp
  from a b show "s @ ''-'' @ c \<noteq> ''ETH''" by (rule ne_of_mem) 
  from a c show "s @ ''-'' @ c \<noteq> ''USDC''" by (rule ne_of_mem)
qed

lemma flagInv_seed:
  assumes "SYMBOL_AGGREGATION_MAP (toUpperCase (symbol item)) = Some c"
  shows "flagInv c (seedItem c item)"
proof -
  from assms have "c = ''ETH'' \<or> c = ''USDC''" by (rule canonical_cases)
  moreover from assms have "inAliasTable (symbol item)" by (simp add: inAliasTable_def)
  ultimately show ?thesis
    unfolding flagInv_def seedItem_fields by simp
qed

lemma flagInv_merge:
  assumes "SYMBOL_AGGREGATION_MAP (toUpperCase (symbol item)) = Some c" and "flagInv c e"
  shows "flagInv c (mergeItem e item)"
proof -
  from assms(1) have c: "c = ''ETH'' \<or> c = ''USDC''" by (rule canonical_cases)
  from assms(1) have al: "inAliasTable (symbol item)" by (simp add: inAliasTable_def)
  from assms(2) c have agg: "isAggregated e" unfolding flagInv_def by blast
  from assms(2) agg have rest: "\<forall>i\<in>set (originalItems e). inAliasTable (symbol i)"
    "symbol e = c" unfolding flagInv_def by blast+
  show ?thesis
    unfolding flagInv_def mergeItem_fields using c al agg rest by simp
qed

lemma flagInv_plain:
  assumes "SYMBOL_AGGREGATION_MAP (toUpperCase (symbol item)) = None"
  shows "flagInv (symbol item @ ''-'' @ chain item) (spreadItem item [chain item] [item] False)"
proof -
  from assms have "\<not> inAliasTable (symbol item)" by (simp add: inAliasTable_def)
  then show ?thesis
    unfolding flagInv_def spreadItem_fields
    using plain_key_not_canonical [of "symbol item" "chain item"] by simp
qed

lemma aggregate_flagInv:
  assumes "g \<in> set (aggregatePortfolioItems items)"
  shows "\<exists>k. (k, g) \<in> set (aggregationMapOf items) \<and> flagInv k g"
proof (rule aggregate_invariant [OF assms, where P = flagInv])
qed (rule flagInv_seed flagInv_merge flagInv_plain; assumption)+

lemma aggregationMapOf_flagInv:
  assumes "(k, g) \<in> set (aggregationMapOf items)"
  shows "flagInv k g"
proof (rule aggregate_fold_invariant [where P = flagInv and items = items and its = items and m = "[]"])
  show "(k, g) \<in> set (fold aggregateStep items [])"
    using assms by (simp only: aggregationMapOf_def)
qed (simp_all add: flagInv_seed flagInv_merge flagInv_plain del: append.simps)

text \<open>
  Claim C8, as the specification states it, fails: a single USDC item, merged with
  nothing and with its symbol unchanged, is returned with \<open>isAggregated = true\<close>.
\<close>

theorem lone_usdc_marked_aggregated:
  "aggregatePortfolioItems [loneUsdc] = [seedItem ''USDC'' loneUsdc]
   \<and> isAggregated (seedItem ''USDC'' loneUsdc)
   \<and> length (originalItems (seedItem ''USDC'' loneUsdc)) = 1
   \<and> symbol (seedItem ''USDC'' loneUsdc) = symbol loneUsdc"
proof -
  have "symbol loneUsdc = ''USDC''" by (simp add: loneUsdc_def)
  then show ?thesis by (simp add: aggregate_lone_usdc seedItem_fields)
qed

text \<open>
  Claim C8, amended.  A returned item has \<open>isAggregated = true\<close> exactly when the symbol
  of its first original item is in the alias table (WETH, ETH or USDC in any letter
  case), whether or not anything was merged or renamed.  Every group of two or more
  original items and every group whose symbol was rewritten is marked.
\<close>

theorem isAggregated_iff_alias_table:
  assumes "g \<in> set (aggregatePortfolioItems items)"
  shows "originalItems g \<noteq> []
       \<and> (isAggregated g \<longleftrightarrow> inAliasTable (symbol (hd (originalItems g))))
       \<and> (2 \<le> length (originalItems g) \<or> symbol g \<noteq> symbol (hd (originalItems g))
            \<longrightarrow> isAggregated g)"
proof -
  from aggregate_flagInv [OF assms] obtain k where inv: "flagInv k g" by blast
  then have ne: "originalItems g \<noteq> []" by (simp add: flagInv_def)
  then have "hd (originalItems g) \<in> set (originalItems g)" by simp
  with inv have a: "inAliasTable (symbol (hd (originalItems g))) = isAggregated g"
    unfolding flagInv_def by blast
  have b: "isAggregated g"
    if "2 \<le> length (originalItems g) \<or> symbol g \<noteq> symbol (hd (originalItems g))"
  proof (rule ccontr)
    assume "\<not> isAggregated g"
    with inv have "length (originalItems g) = 1" "symbol g = symbol (hd (originalItems g))"
      unfolding flagInv_def by blast+
    with that show False by simp
  qed
  from ne a b show ?thesis by blast
qed

theorem isAggregated_iff_alias_table_witness:
  "originalItems (seedItem ''USDC'' loneUsdc) = [loneUsdc]
   \<and> isAggregated (seedItem ''USDC'' loneUsdc) = inAliasTable (symbol loneUsdc)
   \<and> inAliasTable (symbol loneUsdc)
   \<and> length (originalItems (mergeItem (seedItem ''ETH'' wethItem) ethItem)) = 2
   \<and> isAggregated (mergeItem (seedItem ''ETH'' wethItem) ethItem)"
proof -
  have mem: "seedItem ''USDC'' loneUsdc \<in> set (aggregatePortfolioItems [loneUsdc])"
    by (simp add: aggregate_lone_usdc)
  have al: "inAliasTable (symbol loneUsdc)"
    by (simp add: inAliasTable_def loneUsdc_def toUpperCase_table_keys SYMBOL_AGGREGATION_MAP_def)
  have mem2: "mergeItem (seedItem ''ETH'' wethItem) ethItem
      \<in> set (aggregatePortfolioItems [wethItem, ethItem])"
    by (simp add: aggregate_weth_eth)
  have two: "length (originalItems (mergeItem (seedItem ''ETH'' wethItem) ethItem)) = 2"
    by (simp add: mergeItem_fields seedItem_fields)
  have "2 \<le> length (originalItems (mergeItem (seedItem ''ETH'' wethItem) ethItem))"
    using two by simp
  with isAggregated_iff_alias_table [OF mem2]
  have "isAggregated (mergeItem (seedItem ''ETH'' wethItem) ethItem)" by blast
  with isAggregated_iff_alias_table [OF mem] al two show ?thesis by (simp add: seedItem_fields)
qed

subsection \<open>Items outside the alias table that share symbol and chain\<close>

lemma canonical_no_hyphen:
  assumes "SYMBOL_AGGREGATION_MAP x = Some c" shows "CHR ''-'' \<notin> set c"
  using canonical_cases [OF assms] by auto

lemma map_of_aggregateStep:
  assumes "CHR ''-'' \<in> set k"
  shows "map_of (aggregateStep item m) k =
     (if plainKeyed k item then Some (spreadItem item [chain item] [item] False) else map_of m k)"
proof (cases "SYMBOL_AGGREGATION_MAP (toUpperCase (symbol item))")
  case None
  then show ?thesis
    by (simp add: aggregateStep_def plainKeyed_def inAliasTable_def update_conv)
next
  case (Some c)
  then have "CHR ''-'' \<notin> set c" by (rule canonical_no_hyphen)
  with assms have "c \<noteq> k" by blast
  with Some show ?thesis
    by (simp add: aggregateStep_def plainKeyed_def inAliasTable_def update_conv Let_def
        split: option.split)
qed

lemma map_of_fold_aggregateStep:
  assumes "CHR ''-'' \<in> set k"
  shows "map_of (fold aggregateStep items m) k =
     (case filter (plainKeyed k) items of
        [] \<Rightarrow> map_of m k
      | xs \<Rightarrow> Some (spreadItem (last xs) [chain (last xs)] [last xs] False))"
proof (induction items arbitrary: m)
  case Nil
  show ?case by simp
next
  case (Cons item items)
  show ?case
    by (simp add: Cons.IH map_of_aggregateStep [OF assms] split: list.split)
qed

lemma split_at_first:
  "x \<notin> set a \<Longrightarrow> x \<notin> set b \<Longrightarrow> a @ x # u = b @ x # v \<Longrightarrow> a = b \<and> u = v"
proof (induction a arbitrary: b)
  case Nil
  then show ?case by (cases b) auto
next
  case (Cons y a)
  then show ?case by (cases b) auto
qed

lemma hyphen_key_inject:
  assumes "s1 @ ''-'' @ c1 = s2 @ ''-'' @ c2"
    and "CHR ''-'' \<notin> set c1" and "CHR ''-'' \<notin> set c2"
  shows "s1 = s2 \<and> c1 = c2"
proof -
  have "rev c1 @ CHR ''-'' # rev s1 = rev c2 @ CHR ''-'' # rev s2"
    using arg_cong [OF assms(1), of rev] by simp
  moreover have "CHR ''-'' \<notin> set (rev c1)" "CHR ''-'' \<notin> set (rev c2)"
    using assms(2,3) by simp_all
  ultimately have "rev c1 = rev c2 \<and> rev s1 = rev s2"
    by (rule split_at_first [rotated 2])
  then show ?thesis by simp
qed

lemma distinct_keys_aggregateStep:
  "distinct (map fst m) \<Longrightarrow> distinct (map fst (aggregateStep item m))"
  by (simp add: aggregateStep_def Let_def distinct_update split: option.split)

lemma distinct_keys_fold:
  "distinct (map fst m) \<Longrightarrow> distinct (map fst (fold aggregateStep items m))"
  by (induction items arbitrary: m) (simp_all add: distinct_keys_aggregateStep)

lemma distinct_keys_aggregationMapOf: "distinct (map fst (aggregationMapOf items))"
  by (simp add: aggregationMapOf_def distinct_keys_fold)

lemma filter_values_unique:
  assumes "distinct (map fst m)" and "map_of m k = Some v" and "Q v"
    and "\<And>k' v'. (k', v') \<in> set m \<Longrightarrow> Q v' \<Longrightarrow> k' = k"
  shows "filter Q (map snd m) = [v]"
  using assms
proof (induction m)
  case Nil
  then show ?case by simp
next
  case (Cons p m)
  obtain k0 v0 where p: "p = (k0, v0)" by (cases p)
  show ?case
  proof (cases "k0 = k")
    case True
    with Cons.prems(2) p have v0: "v0 = v" by simp
    have "filter Q (map snd m) = []"
    proof (rule ccontr)
      assume "filter Q (map snd m) \<noteq> []"
      then obtain v' where "v' \<in> set (map snd m)" "Q v'"
        by (auto simp: filter_empty_conv)
      then obtain k' where in_m: "(k', v') \<in> set m" by auto
      with Cons.prems(4) [of k' v'] \<open>Q v'\<close> have "k' = k" by simp
      with in_m have "k \<in> fst ` set m" by force
      with Cons.prems(1) p True show False by simp
    qed
    with v0 p Cons.prems(3) show ?thesis by simp
  next
    case False
    with Cons.prems(2) p have look: "map_of m k = Some v" by simp
    from Cons.prems(1) have d: "distinct (map fst m)" by simp
    have nq: "\<not> Q v0" using Cons.prems(4) [of k0 v0] p False by auto
    have "filter Q (map snd m) = [v]"
      by (rule Cons.IH [OF d look Cons.prems(3)]) (use Cons.prems(4) in auto)
    with nq p show ?thesis by simp
  qed
qed

lemma map_of_fold_aggregateStep_last:
  assumes "CHR ''-'' \<in> set k" and "filter (plainKeyed k) items \<noteq> []"
  shows "map_of (fold aggregateStep items m) k =
     Some (spreadItem (last (filter (plainKeyed k) items))
        [chain (last (filter (plainKeyed k) items))] [last (filter (plainKeyed k) items)] False)"
proof -
  from assms(2) obtain x xs where "filter (plainKeyed k) items = x # xs"
    by (cases "filter (plainKeyed k) items") auto
  then show ?thesis
    unfolding map_of_fold_aggregateStep [OF assms(1)] by simp
qed

text \<open>
  Claim C9.  When two or more input items have the same symbol, not in the alias table,
  and the same chain, the map holds one entry under their \<open>symbol-chain\<close> key, and it is
  the last of these items alone: amount, price and \<open>originalItems\<close> are those of the last
  item, and the output has exactly one entry of that symbol and chain.  Chain
  identifiers contain no hyphen (as those of every venue: solana, ethereum, arbitrum,
  bsc, base, worldchain, hyperliquid), so that the key determines symbol and chain.
\<close>

theorem plain_duplicates_replaced:
  assumes plain: "\<not> inAliasTable s"
    and dup: "2 \<le> length (filter (\<lambda>i. symbol i = s \<and> chain i = c) items)"
    and chains: "\<forall>i\<in>set items. CHR ''-'' \<notin> set (chain i)"
  shows "map_of (aggregationMapOf items) (s @ ''-'' @ c) =
           Some (spreadItem (last (filter (\<lambda>i. symbol i = s \<and> chain i = c) items)) [c]
                   [last (filter (\<lambda>i. symbol i = s \<and> chain i = c) items)] False)
       \<and> filter (\<lambda>g. symbol g = s \<and> chain g = c) (aggregatePortfolioItems items) =
           [spreadItem (last (filter (\<lambda>i. symbol i = s \<and> chain i = c) items)) [c]
                   [last (filter (\<lambda>i. symbol i = s \<and> chain i = c) items)] False]"
proof -
  let ?same = "\<lambda>i. symbol i = s \<and> chain i = c"
  let ?k = "s @ ''-'' @ c"
  let ?final = "last (filter ?same items)"
  let ?entry = "spreadItem ?final [c] [?final] False"
  from dup have ne: "filter ?same items \<noteq> []" by auto
  then have fin: "?final \<in> set (filter ?same items)" by (rule last_in_set)
  then have fin_sym: "symbol ?final = s" and fin_chain: "chain ?final = c"
    and fin_in: "?final \<in> set items" by simp_all
  from fin_in chains fin_chain have c_plain: "CHR ''-'' \<notin> set c" by auto
  have same_filter: "filter (plainKeyed ?k) items = filter ?same items"
  proof (rule filter_cong [OF refl])
    fix i assume i: "i \<in> set items"
    with chains have "CHR ''-'' \<notin> set (chain i)" by blast
    with c_plain have "symbol i @ ''-'' @ chain i = ?k \<longleftrightarrow> symbol i = s \<and> chain i = c"
      using hyphen_key_inject [of "symbol i" "chain i" s c] by auto
    with plain show "plainKeyed ?k i = (symbol i = s \<and> chain i = c)"
      unfolding plainKeyed_def by auto
  qed
  have hy: "CHR ''-'' \<in> set ?k" by simp
  have ne': "filter (plainKeyed ?k) items \<noteq> []" unfolding same_filter by (rule ne)
  have look: "map_of (aggregationMapOf items) ?k = Some ?entry"
    unfolding aggregationMapOf_def map_of_fold_aggregateStep_last [OF hy ne'] same_filter fin_chain
    by (rule refl)
  have key: "k' = ?k" if in_m: "(k', g') \<in> set (aggregationMapOf items)"
    and q: "symbol g' = s \<and> chain g' = c" for k' g'
  proof -
    from in_m have inv: "flagInv k' g'" by (rule aggregationMapOf_flagInv)
    have "\<not> isAggregated g'"
    proof
      assume agg: "isAggregated g'"
      with inv have "symbol g' = k'" "k' = ''ETH'' \<or> k' = ''USDC''"
        unfolding flagInv_def by blast+
      with q have "s = ''ETH'' \<or> s = ''USDC''" by simp
      then have "inAliasTable s"
        by (auto simp: inAliasTable_def toUpperCase_table_keys SYMBOL_AGGREGATION_MAP_def)
      with plain show False by simp
    qed
    with inv have "k' = symbol g' @ ''-'' @ chain g'" unfolding flagInv_def by blast
    with q show ?thesis by simp
  qed
  have q_entry: "symbol ?entry = s \<and> chain ?entry = c"
    using fin_sym fin_chain by (simp add: spreadItem_fields)
  have "filter (\<lambda>g. symbol g = s \<and> chain g = c) (map snd (aggregationMapOf items)) = [?entry]"
    by (rule filter_values_unique [where Q = "\<lambda>g. symbol g = s \<and> chain g = c" and k = ?k,
          OF distinct_keys_aggregationMapOf look q_entry key])
  with look show ?thesis unfolding aggregatePortfolioItems_def by simp
qed

theorem plain_duplicates_replaced_witness:
  "map_of (aggregationMapOf [pepeFirst, pepeSecond]) ''PEPE-ethereum'' =
     Some (spreadItem pepeSecond [''ethereum''] [pepeSecond] False)
   \<and> filter (\<lambda>g. symbol g = ''PEPE'' \<and> chain g = ''ethereum'')
        (aggregatePortfolioItems [pepeFirst, pepeSecond]) =
     [spreadItem pepeSecond [''ethereum''] [pepeSecond] False]
   \<and> amount (spreadItem pepeSecond [''ethereum''] [pepeSecond] False) = 7"
proof -
  have fields: "symbol pepeFirst = ''PEPE''" "symbol pepeSecond = ''PEPE''"
    "chain pepeFirst = ''ethereum''" "chain pepeSecond = ''ethereum''" "amount pepeSecond = 7"
    by (simp_all add: pepeFirst_def pepeSecond_def)
  have plain: "\<not> inAliasTable ''PEPE''"
    by (simp add: inAliasTable_def toUpperCase_def toUpperChar_def SYMBOL_AGGREGATION_MAP_def)
  have dup: "2 \<le> length (filter (\<lambda>i. symbol i = ''PEPE'' \<and> chain i = ''ethereum'')
      [pepeFirst, pepeSecond])"
    by (simp add: fields)
  have chains: "\<forall>i\<in>set [pepeFirst, pepeSecond]. CHR ''-'' \<notin> set (chain i)"
    by (simp add: fields)
  from plain_duplicates_replaced [OF plain dup chains] show ?thesis
    by (simp add: fields spreadItem_fields)
qed


section \<open>Properties of the portfolio view\<close>

lemma totalBalance_sum: "totalBalance assets = (\<Sum>a\<leftarrow>assets. price a * amount a)"
  by (simp add: totalBalance_def foldl_add_sum_list)

lemma aggregate_with_dust:
  "aggregatePortfolioItems [wethItem, ethItem, dustItem] =
     [mergeItem (seedItem ''ETH'' wethItem) ethItem,
      spreadItem dustItem [''base''] [dustItem] False]"
proof -
  have "symbol wethItem = ''WETH''" "symbol ethItem = ''ETH''" "symbol dustItem = ''DUST''"
    "chain dustItem = ''base''"
    by (simp_all add: wethItem_def ethItem_def dustItem_def)
  moreover have "toUpperCase ''DUST'' = ''DUST''"
    by (simp add: toUpperCase_def toUpperChar_def)
  ultimately show ?thesis
    by (simp add: aggregatePortfolioItems_def aggregationMapOf_def aggregateStep_def
        SYMBOL_AGGREGATION_MAP_def toUpperCase_table_keys Let_def)
qed

text \<open>
  Claim C4.  The dust filter is applied before the totals: an aggregated item whose USD
  value \<open>price * amount\<close> is at most 0.02 is not in the displayed list, the displayed
  items are exactly the items above the threshold, the total balance is the sum of
  \<open>price * amount\<close> over exactly these, and removing the dust from the input leaves the
  total unchanged.
\<close>

theorem dust_filtered_before_totals:
  "(\<forall>a\<in>set aggregatedAssets. price a * amount a \<le> 0.02 \<longrightarrow>
       a \<notin> set (sortedAssets (assetsOf aggregatedAssets)))
   \<and> set (sortedAssets (assetsOf aggregatedAssets)) =
       {a \<in> set aggregatedAssets. price a * amount a > 0.02}
   \<and> totalBalance (assetsOf aggregatedAssets) =
       (\<Sum>a\<leftarrow>filter (\<lambda>a. price a * amount a > 0.02) aggregatedAssets. price a * amount a)
   \<and> totalBalance (assetsOf aggregatedAssets) =
       totalBalance (assetsOf (filter (\<lambda>a. \<not> price a * amount a \<le> 0.02) aggregatedAssets))"
  by (auto simp: sortedAssets_def assetsOf_def totalBalance_sum not_le)

theorem dust_filtered_before_totals_witness:
  "spreadItem dustItem [''base''] [dustItem] False
     \<notin> set (sortedAssets (assetsOf (aggregatePortfolioItems [wethItem, ethItem, dustItem])))
   \<and> totalBalance (assetsOf (aggregatePortfolioItems [wethItem, ethItem, dustItem])) = 4000"
proof -
  let ?dust = "spreadItem dustItem [''base''] [dustItem] False"
  let ?eth = "mergeItem (seedItem ''ETH'' wethItem) ethItem"
  have dust: "price ?dust * amount ?dust = 0.001"
    by (simp add: spreadItem_fields dustItem_def)
  have tv: "totalValueOf [wethItem, ethItem] = 4000" "totalAmountOf [wethItem, ethItem] = 2"
    by (simp_all add: totalValueOf_def totalAmountOf_def wethItem_def ethItem_def)
  have eth: "price ?eth * amount ?eth = 4000"
    by (simp add: mergeItem_fields seedItem_fields tv) (simp add: wethItem_def ethItem_def)
  have mem: "?dust \<in> set (aggregatePortfolioItems [wethItem, ethItem, dustItem])"
    by (simp add: aggregate_with_dust)
  from dust_filtered_before_totals [of "aggregatePortfolioItems [wethItem, ethItem, dustItem]"]
    mem dust
  have "?dust \<notin> set (sortedAssets (assetsOf (aggregatePortfolioItems [wethItem, ethItem, dustItem])))"
    by simp
  moreover have "totalBalance (assetsOf (aggregatePortfolioItems [wethItem, ethItem, dustItem])) = 4000"
    by (simp add: aggregate_with_dust assetsOf_def totalBalance_def dust eth)
  ultimately show ?thesis by simp
qed


section \<open>Properties of the denylist\<close>

text \<open>The table of \<open>toLowerChar\<close> written out, and its values on the printable characters of ASCII.\<close>

lemma toLowerChar_table:
  "toLowerChar c =
     (case map_of
       [(CHR ''A'', CHR ''a''), (CHR ''B'', CHR ''b''), (CHR ''C'', CHR ''c''), (CHR ''D'',
        CHR ''d''), (CHR ''E'', CHR ''e''), (CHR ''F'', CHR ''f''), (CHR ''G'', CHR ''g''),
        (CHR ''H'', CHR ''h''), (CHR ''I'', CHR ''i''), (CHR ''J'', CHR ''j''), (CHR ''K'',
        CHR ''k''), (CHR ''L'', CHR ''l''), (CHR ''M'', CHR ''m''), (CHR ''N'', CHR ''n''),
        (CHR ''O'', CHR ''o''), (CHR ''P'', CHR ''p''), (CHR ''Q'', CHR ''q''), (CHR ''R'',
        CHR ''r''), (CHR ''S'', CHR ''s''), (CHR ''T'', CHR ''t''), (CHR ''U'', CHR ''u''),
        (CHR ''V'', CHR ''v''), (CHR ''W'', CHR ''w''), (CHR ''X'', CHR ''x''), (CHR ''Y'',
        CHR ''y''), (CHR ''Z'', CHR ''z''), (CHR 0xC0, CHR 0xE0), (CHR 0xC1, CHR 0xE1), (CHR
        0xC2, CHR 0xE2), (CHR 0xC3, CHR 0xE3), (CHR 0xC4, CHR 0xE4), (CHR 0xC5, CHR 0xE5),
        (CHR 0xC6, CHR 0xE6), (CHR 0xC7, CHR 0xE7), (CHR 0xC8, CHR 0xE8), (CHR 0xC9, CHR
        0xE9), (CHR 0xCA, CHR 0xEA), (CHR 0xCB, CHR 0xEB), (CHR 0xCC, CHR 0xEC), (CHR 0xCD,
        CHR 0xED), (CHR 0xCE, CHR 0xEE), (CHR 0xCF, CHR 0xEF), (CHR 0xD0, CHR 0xF0), (CHR
        0xD1, CHR 0xF1), (CHR 0xD2, CHR 0xF2), (CHR 0xD3, CHR 0xF3), (CHR 0xD4, CHR 0xF4),
        (CHR 0xD5, CHR 0xF5), (CHR 0xD6, CHR 0xF6), (CHR 0xD8, CHR 0xF8), (CHR 0xD9, CHR
        0xF9), (CHR 0xDA, CHR 0xFA), (CHR 0xDB, CHR 0xFB), (CHR 0xDC, CHR 0xFC), (CHR 0xDD,
        CHR 0xFD), (CHR 0xDE, CHR 0xFE)] c of
        Some l \<Rightarrow> l | None \<Rightarrow> c)"
  by (simp add: toLowerChar_def)

lemma toLowerChar_ascii:
  "toLowerChar (CHR '' '') = CHR '' ''" "toLowerChar (CHR ''!'') = CHR ''!''"
  "toLowerChar (CHR 0x22) = CHR 0x22" "toLowerChar (CHR ''#'') = CHR ''#''"
  "toLowerChar (CHR ''$'') = CHR ''$''" "toLowerChar (CHR ''%'') = CHR ''%''"
  "toLowerChar (CHR ''&'') = CHR ''&''" "toLowerChar (CHR 0x27) = CHR 0x27"
  "toLowerChar (CHR ''('') = CHR ''(''" "toLowerChar (CHR '')'') = CHR '')''"
  "toLowerChar (CHR ''*'') = CHR ''*''" "toLowerChar (CHR ''+'') = CHR ''+''"
  "toLowerChar (CHR '','') = CHR '',''" "toLowerChar (CHR ''-'') = CHR ''-''"
  "toLowerChar (CHR ''.'') = CHR ''.''" "toLowerChar (CHR ''/'') = CHR ''/''"
  "toLowerChar (CHR ''0'') = CHR ''0''" "toLowerChar (CHR ''1'') = CHR ''1''"
  "toLowerChar (CHR ''2'') = CHR ''2''" "toLowerChar (CHR ''3'') = CHR ''3''"
  "toLowerChar (CHR ''4'') = CHR ''4''" "toLowerChar (CHR ''5'') = CHR ''5''"
  "toLowerChar (CHR ''6'') = CHR ''6''" "toLowerChar (CHR ''7'') = CHR ''7''"
  "toLowerChar (CHR ''8'') = CHR ''8''" "toLowerChar (CHR ''9'') = CHR ''9''"
  "toLowerChar (CHR '':'') = CHR '':''" "toLowerChar (CHR '';'') = CHR '';''"
  "toLowerChar (CHR ''<'') = CHR ''<''" "toLowerChar (CHR ''='') = CHR ''=''"
  "toLowerChar (CHR ''>'') = CHR ''>''" "toLowerChar (CHR ''?'') = CHR ''?''"
  "toLowerChar (CHR ''@'') = CHR ''@''" "toLowerChar (CHR ''A'') = CHR ''a''"
  "toLowerChar (CHR ''B'') = CHR ''b''" "toLowerChar (CHR ''C'') = CHR ''c''"
  "toLowerChar (CHR ''D'') = CHR ''d''" "toLowerChar (CHR ''E'') = CHR ''e''"
  "toLowerChar (CHR ''F'') = CHR ''f''" "toLowerChar (CHR ''G'') = CHR ''g''"
  "toLowerChar (CHR ''H'') = CHR ''h''" "toLowerChar (CHR ''I'') = CHR ''i''"
  "toLowerChar (CHR ''J'') = CHR ''j''" "toLowerChar (CHR ''K'') = CHR ''k''"
  "toLowerChar (CHR ''L'') = CHR ''l''" "toLowerChar (CHR ''M'') = CHR ''m''"
  "toLowerChar (CHR ''N'') = CHR ''n''" "toLowerChar (CHR ''O'') = CHR ''o''"
  "toLowerChar (CHR ''P'') = CHR ''p''" "toLowerChar (CHR ''Q'') = CHR ''q''"
  "toLowerChar (CHR ''R'') = CHR ''r''" "toLowerChar (CHR ''S'') = CHR ''s''"
  "toLowerChar (CHR ''T'') = CHR ''t''" "toLowerChar (CHR ''U'') = CHR ''u''"
  "toLowerChar (CHR ''V'') = CHR ''v''" "toLowerChar (CHR ''W'') = CHR ''w''"
  "toLowerChar (CHR ''X'') = CHR ''x''" "toLowerChar (CHR ''Y'') = CHR ''y''"
  "toLowerChar (CHR ''Z'') = CHR ''z''" "toLowerChar (CHR ''['') = CHR ''[''"
  "toLowerChar (CHR 0x5C) = CHR 0x5C" "toLowerChar (CHR '']'') = CHR '']''"
  "toLowerChar (CHR ''^'') = CHR ''^''" "toLowerChar (CHR ''_'') = CHR ''_''"
  "toLowerChar (CHR ''`'') = CHR ''`''" "toLowerChar (CHR ''a'') = CHR ''a''"
  "toLowerChar (CHR ''b'') = CHR ''b''" "toLowerChar (CHR ''c'') = CHR ''c''"
  "toLowerChar (CHR ''d'') = CHR ''d''" "toLowerChar (CHR ''e'') = CHR ''e''"
  "toLowerChar (CHR ''f'') = CHR ''f''" "toLowerChar (CHR ''g'') = CHR ''g''"
  "toLowerChar (CHR ''h'') = CHR ''h''" "toLowerChar (CHR ''i'') = CHR ''i''"
  "toLowerChar (CHR ''j'') = CHR ''j''" "toLowerChar (CHR ''k'') = CHR ''k''"
  "toLowerChar (CHR ''l'') = CHR ''l''" "toLowerChar (CHR ''m'') = CHR ''m''"
  "toLowerChar (CHR ''n'') = CHR ''n''" "toLowerChar (CHR ''o'') = CHR ''o''"
  "toLowerChar (CHR ''p'') = CHR ''p''" "toLowerChar (CHR ''q'') = CHR ''q''"
  "toLowerChar (CHR ''r'') = CHR ''r''" "toLowerChar (CHR ''s'') = CHR ''s''"
  "toLowerChar (CHR ''t'') = CHR ''t''" "toLowerChar (CHR ''u'') = CHR ''u''"
  "toLowerChar (CHR ''v'') = CHR ''v''" "toLowerChar (CHR ''w'') = CHR ''w''"
  "toLowerChar (CHR ''x'') = CHR ''x''" "toLowerChar (CHR ''y'') = CHR ''y''"
  "toLowerChar (CHR ''z'') = CHR ''z''" "toLowerChar (CHR ''{'') = CHR ''{''"
  "toLowerChar (CHR ''|'') = CHR ''|''" "toLowerChar (CHR ''}'') = CHR ''}''"
  "toLowerChar (CHR ''~'') = CHR ''~''"
  by (simp_all add: toLowerChar_table)

lemma toLowerCase_append: "toLowerCase (xs @ ys) = toLowerCase xs @ toLowerCase ys"
  by (simp add: toLowerCase_def)

lemma toLowerCase_idem: "toLowerCase (toLowerCase s) = toLowerCase s"
proof -
  have "toLowerChar (toLowerChar c) = toLowerChar c" for c
    by (simp add: toLowerChar_table)
  then show ?thesis by (simp add: toLowerCase_def)
qed

lemma addToDenylist_lookup:
  "\<exists>store'. addToDenylist now rnd token chainId (Some store) = Some store'
      \<and> store' (createKey token chainId) =
          Some \<lparr> key = createKey token chainId, timestamp = now \<rparr>"
  by (simp add: addToDenylist_def cleanupExpired_def Let_def TTL_MS_def)

lemma isDenylisted_fresh:
  assumes "store (createKey token chainId) = Some entry"
  shows "isDenylisted now token chainId (Some store) =
     (if now - timestamp entry > TTL_MS
      then (False, Some (store (createKey token chainId := None)))
      else (True, Some store))"
  using assms by (simp add: isDenylisted_def isExpired_def removeFromDenylist_def)

lemma isDenylisted_absent:
  assumes "store (createKey token chainId) = None"
  shows "isDenylisted now token chainId (Some store) = (False, Some store)"
  using assms by (simp add: isDenylisted_def)

lemma createKey_case_insensitive:
  "toLowerCase token' = toLowerCase token \<Longrightarrow> createKey token' chainId = createKey token chainId"
  by (simp add: createKey_def)

lemma parse_at_match:
  assumes "matchTokenAt s = Some r" shows "parseTokenFromError s = Some r"
  using assms by (cases s) simp_all

lemma parse_skip_prefix:
  assumes "\<forall>i<length pre. matchTokenAt (drop i pre @ m) = None"
  shows "parseTokenFromError (pre @ m) = parseTokenFromError m"
  using assms
proof (induction pre)
  case Nil
  show ?case by simp
next
  case (Cons c pre)
  from Cons.prems have here: "matchTokenAt ((c # pre) @ m) = None" by (auto dest: spec [of _ 0])
  have "\<forall>i<length pre. matchTokenAt (drop i pre @ m) = None"
  proof (intro allI impI)
    fix i assume "i < length pre"
    then have "Suc i < length (c # pre)" by simp
    with Cons.prems have "matchTokenAt (drop (Suc i) (c # pre) @ m) = None" by blast
    then show "matchTokenAt (drop i pre @ m) = None" by simp
  qed
  then have "parseTokenFromError (pre @ m) = parseTokenFromError m" by (rule Cons.IH)
  with here show ?case by simp
qed

lemma match_token_message:
  assumes d: "d \<noteq> []" "\<forall>c\<in>set d. isDigit c"
    and a: "a \<noteq> []" "\<forall>c\<in>set a. isHexOrX c"
  shows "matchTokenAt (''Token '' @ d @ ''-'' @ a @ '' is invalid or in deny list.'' @ post)
       = Some (d, a)"
proof -
  let ?tail = "'' is invalid or in deny list.'' @ post"
  from d obtain d0 ds where dd: "d = d0 # ds" by (cases d) auto
  with d have "isDigit d0" by simp
  then have nsp: "\<not> isSpace d0" by (auto simp: isDigit_def isSpace_def)
  have ndash: "\<not> isDigit (CHR ''-'')" by (simp add: isDigit_def)
  have nhex: "\<not> isHexOrX (CHR '' '')" by (simp add: isHexOrX_def)
  have low: "toLowerCase ''Token'' = ''token''" by (simp add: toLowerCase_def toLowerChar_ascii)
  have sp: "isSpace (CHR '' '')" by (simp add: isSpace_def)
  have s1: "dropWhile isSpace ('' '' @ d @ ''-'' @ a @ ?tail) = d @ ''-'' @ a @ ?tail"
    using sp nsp dd by simp
  have s2: "takeWhile isSpace ('' '' @ d @ ''-'' @ a @ ?tail) = '' ''"
    using sp nsp dd by simp
  have s3: "takeWhile isDigit (d @ ''-'' @ a @ ?tail) = d"
    using d(2) ndash by (simp add: takeWhile_tail)
  have s4: "dropWhile isDigit (d @ ''-'' @ a @ ?tail) = ''-'' @ a @ ?tail"
    using d(2) ndash by (simp add: dropWhile_append3)
  have s5: "takeWhile isHexOrX (a @ ?tail) = a"
    using a(2) nhex by (simp add: takeWhile_tail)
  show ?thesis
    unfolding matchTokenAt_def
    using low s1 s2 s3 s4 s5 d(1) a(1) by (simp add: Let_def)
qed

lemma isDenylistError_message:
  "isDenylistError (pre @ ''Token '' @ d @ ''-'' @ a @ '' is invalid or in deny list.'' @ post)"
proof -
  let ?msg = "pre @ ''Token '' @ d @ ''-'' @ a @ '' is invalid or in deny list.'' @ post"
  have low: "toLowerCase '' is invalid or in deny list.''
      = '' is invalid or in '' @ ''deny list'' @ ''.''"
    by (simp add: toLowerCase_def toLowerChar_ascii)
  have "toLowerCase ?msg =
      (toLowerCase pre @ toLowerCase ''Token '' @ toLowerCase d @ toLowerCase ''-'' @ toLowerCase a
         @ '' is invalid or in '') @ ''deny list'' @ (''.'' @ toLowerCase post)"
    by (simp only: toLowerCase_append low append_assoc)
  then have "sublist ''deny list'' (toLowerCase ?msg)"
    by (simp only: sublist_appendI)
  then show ?thesis
    by (simp add: isDenylistError_def Let_def DENYLIST_MESSAGES_def str_includes_def list_ex_iff)
qed

lemma toLowerChar_t: "toLowerChar c = CHR ''t'' \<Longrightarrow> c = CHR ''t'' \<or> c = CHR ''T''"
  by (simp add: toLowerChar_table split: if_splits)

lemma matchTokenAt_first_char:
  assumes "c \<noteq> CHR ''t''" "c \<noteq> CHR ''T''"
  shows "matchTokenAt (c # cs) = None"
proof -
  have "toLowerCase (take 5 (c # cs)) \<noteq> ''token''"
  proof
    assume "toLowerCase (take 5 (c # cs)) = ''token''"
    then have "toLowerChar c = CHR ''t''" by (simp add: toLowerCase_def)
    with assms show False by (auto dest: toLowerChar_t)
  qed
  then show ?thesis by (simp add: matchTokenAt_def Let_def)
qed

lemma no_match_before:
  assumes "CHR ''t'' \<notin> set pre" "CHR ''T'' \<notin> set pre"
  shows "\<forall>i<length pre. matchTokenAt (drop i pre @ m) = None"
proof (intro allI impI)
  fix i assume i: "i < length pre"
  then have "drop i pre = pre ! i # drop (Suc i) pre" by (simp add: Cons_nth_drop_Suc)
  moreover from i have "pre ! i \<in> set pre" by simp
  with assms have "pre ! i \<noteq> CHR ''t''" "pre ! i \<noteq> CHR ''T''" by auto
  ultimately show "matchTokenAt (drop i pre @ m) = None"
    by (simp add: matchTokenAt_first_char)
qed

lemma handle_parsed:
  assumes "isDenylistError errorMessage" "parseTokenFromError errorMessage = Some (c, tk)"
  shows "handlePotentialDenylistError now rnd errorMessage token chainId db =
           (True, addToDenylist now rnd tk c db)"
  using assms by (simp add: handlePotentialDenylistError_def)

lemma no_database:
  "addToDenylist now rnd token chainId None = None"
  "isDenylisted t token chainId None = (False, None)"
  by (simp_all add: addToDenylist_def isDenylisted_def)

lemma parse_denyListBody:
  "parseTokenFromError denyListBody
     = Some (''42161'', ''0xABCDEF0123456789abcdef0123456789ABCDEF01'')"
proof -
  let ?pre = "''{\"message\":\"''"
  let ?post = "''\",\"code\":1003}''"
  let ?d = "''42161''"
  let ?a = "''0xABCDEF0123456789abcdef0123456789ABCDEF01''"
  let ?m = "''Token '' @ ?d @ ''-'' @ ?a @ '' is invalid or in deny list.'' @ ?post"
  have body: "denyListBody = ?pre @ ?m" by (simp add: denyListBody_def)
  have d: "?d \<noteq> []" "\<forall>c\<in>set ?d. isDigit c" by (simp_all add: isDigit_def)
  have a: "?a \<noteq> []" "\<forall>c\<in>set ?a. isHexOrX c" by (simp_all add: isHexOrX_def)
  have first: "\<forall>i<length ?pre. matchTokenAt (drop i ?pre @ ?m) = None"
    by (rule no_match_before) simp_all
  have "parseTokenFromError (?pre @ ?m) = parseTokenFromError ?m"
    using first by (rule parse_skip_prefix)
  also have "\<dots> = Some (?d, ?a)"
    by (rule parse_at_match) (rule match_token_message [OF d a])
  finally show ?thesis unfolding body .
qed

lemma denylistError_denyListBody: "isDenylistError denyListBody"
proof -
  have e: "denyListBody = ''{\"message\":\"'' @ ''Token '' @ ''42161'' @ ''-''
      @ ''0xABCDEF0123456789abcdef0123456789ABCDEF01'' @ '' is invalid or in deny list.''
      @ ''\",\"code\":1003}''"
    by (simp add: denyListBody_def)
  show ?thesis by (subst e) (rule isDenylistError_message)
qed

lemma parse_earlierTokenBody:
  "parseTokenFromError earlierTokenBody = Some (''1'', ''0xdeadbeef'')"
proof -
  let ?pre = "''Swap failed for ''"
  let ?m = "''token 1-0xdeadbeef: Token 42161-0xABCDEF0123456789abcdef0123456789ABCDEF01 is invalid or in deny list.''"
  have body: "earlierTokenBody = ?pre @ ?m" by (simp add: earlierTokenBody_def)
  have first: "\<forall>i<length ?pre. matchTokenAt (drop i ?pre @ ?m) = None"
    by (rule no_match_before) simp_all
  have "parseTokenFromError (?pre @ ?m) = parseTokenFromError ?m"
    using first by (rule parse_skip_prefix)
  also have "\<dots> = Some (''1'', ''0xdeadbeef'')"
    by (rule parse_at_match)
      (simp add: matchTokenAt_def Let_def toLowerCase_def toLowerChar_ascii isSpace_def isDigit_def
        isHexOrX_def)
  finally show ?thesis unfolding body .
qed

lemma denylistError_earlierTokenBody: "isDenylistError earlierTokenBody"
proof -
  have e: "earlierTokenBody = ''Swap failed for token 1-0xdeadbeef: '' @ ''Token '' @ ''42161'' @ ''-''
      @ ''0xABCDEF0123456789abcdef0123456789ABCDEF01'' @ '' is invalid or in deny list.'' @ []"
    by (simp add: earlierTokenBody_def)
  show ?thesis by (subst e) (rule isDenylistError_message)
qed

text \<open>
  Claim C6, as the specification states it, fails in two ways.  When the database could
  not be opened, \<open>handlePotentialDenylistError\<close> returns true on the error body of the
  specification all the same, nothing is written, and \<open>isDenylisted\<close> returns false.
  When the pattern matches earlier in the error text, the pair of that earlier match is
  the one written, and \<open>isDenylisted\<close> returns false for the token of the sentence.
\<close>

theorem denylist_miss_after_denylist_error:
  "fst (handlePotentialDenylistError 1000 0.5 denyListBody None None None)
   \<and> \<not> fst (isDenylisted 2000 ''0xabcdef0123456789abcdef0123456789abcdef01'' ''42161''
        (snd (handlePotentialDenylistError 1000 0.5 denyListBody None None None)))
   \<and> fst (handlePotentialDenylistError 1000 0.5 earlierTokenBody None None (Some Map.empty))
   \<and> \<not> fst (isDenylisted 2000 ''0xabcdef0123456789abcdef0123456789abcdef01'' ''42161''
        (snd (handlePotentialDenylistError 1000 0.5 earlierTokenBody None None (Some Map.empty))))
   \<and> fst (isDenylisted 2000 ''0xdeadbeef'' ''1''
        (snd (handlePotentialDenylistError 1000 0.5 earlierTokenBody None None (Some Map.empty))))"
proof -
  have h1: "handlePotentialDenylistError 1000 0.5 denyListBody None None None = (True, None)"
    by (simp add: handle_parsed [OF denylistError_denyListBody parse_denyListBody] no_database)
  have h2: "handlePotentialDenylistError 1000 0.5 earlierTokenBody None None (Some Map.empty)
      = (True, Some [''1-0xdeadbeef'' \<mapsto> \<lparr> key = ''1-0xdeadbeef'', timestamp = 1000 \<rparr>])"
    by (simp add: handle_parsed [OF denylistError_earlierTokenBody parse_earlierTokenBody]
        addToDenylist_def createKey_def toLowerCase_def toLowerChar_ascii Let_def)
  show ?thesis
    unfolding h1 h2
    by (simp add: isDenylisted_def createKey_def toLowerCase_def toLowerChar_ascii isExpired_def
        TTL_MS_def)
qed

text \<open>
  Claim C6, amended.  When the database is available and the error text holds
  \<open>Token <chain id>-<address> is invalid or in deny list.\<close>, the pattern matching nowhere
  before it, \<open>handlePotentialDenylistError\<close> returns true and writes the entry; from then
  on \<open>isDenylisted\<close>, asked with the address in any letter case, returns true as long as
  no more than the TTL of 24 hours has passed since the write, and returns false once
  strictly more than the TTL has passed, after which the entry is gone.  Without a
  database the handler returns true as well and \<open>isDenylisted\<close> returns false.  Whatever
  the error text of a denylist error, the pair written is that of the leftmost match of
  the pattern.
\<close>

theorem denylist_round_trip:
  assumes d: "d \<noteq> []" "\<forall>c\<in>set d. isDigit c"
    and a: "a \<noteq> []" "\<forall>c\<in>set a. isHexOrX c"
    and first: "\<forall>i<length pre. matchTokenAt
        (drop i pre @ ''Token '' @ d @ ''-'' @ a @ '' is invalid or in deny list.'' @ post) = None"
    and variant: "toLowerCase a' = toLowerCase a"
  shows "(\<exists>db'. handlePotentialDenylistError t0 rnd
          (pre @ ''Token '' @ d @ ''-'' @ a @ '' is invalid or in deny list.'' @ post)
          token chainId (Some store) = (True, db')
       \<and> (\<forall>t. t - t0 \<le> TTL_MS \<longrightarrow> isDenylisted t a' d db' = (True, db'))
       \<and> (\<forall>t. TTL_MS < t - t0 \<longrightarrow>
             fst (isDenylisted t a' d db') = False
           \<and> (\<forall>t'. fst (isDenylisted t' a' d (snd (isDenylisted t a' d db'))) = False)))
     \<and> handlePotentialDenylistError t0 rnd
          (pre @ ''Token '' @ d @ ''-'' @ a @ '' is invalid or in deny list.'' @ post)
          token chainId None = (True, None)
     \<and> (\<forall>t. isDenylisted t a' d None = (False, None))
     \<and> (\<forall>msg c tk db. isDenylistError msg \<and> parseTokenFromError msg = Some (c, tk) \<longrightarrow>
           handlePotentialDenylistError t0 rnd msg token chainId db =
             (True, addToDenylist t0 rnd tk c db))"
proof -
  let ?m = "''Token '' @ d @ ''-'' @ a @ '' is invalid or in deny list.'' @ post"
  have "parseTokenFromError (pre @ ?m) = parseTokenFromError ?m"
    using first by (rule parse_skip_prefix)
  also have "\<dots> = Some (d, a)"
    by (rule parse_at_match) (rule match_token_message [OF d a])
  finally have parsed: "parseTokenFromError (pre @ ?m) = Some (d, a)" .
  obtain store' where add: "addToDenylist t0 rnd a d (Some store) = Some store'"
    and entry: "store' (createKey a d) = Some \<lparr> key = createKey a d, timestamp = t0 \<rparr>"
    using addToDenylist_lookup by blast
  have key: "createKey a' d = createKey a d"
    using variant by (rule createKey_case_insensitive)
  have handle: "handlePotentialDenylistError t0 rnd (pre @ ?m) token chainId (Some store)
      = (True, Some store')"
    unfolding handlePotentialDenylistError_def using isDenylistError_message parsed add by simp
  have entry': "store' (createKey a' d) = Some \<lparr> key = createKey a d, timestamp = t0 \<rparr>"
    using entry key by simp
  have within: "isDenylisted t a' d (Some store') = (True, Some store')" if "t - t0 \<le> TTL_MS" for t
    using that by (simp add: isDenylisted_fresh [of store' a' d, OF entry'])
  have after: "fst (isDenylisted t a' d (Some store')) = False
      \<and> (\<forall>t'. fst (isDenylisted t' a' d (snd (isDenylisted t a' d (Some store')))) = False)"
    if "TTL_MS < t - t0" for t
    using that by (simp add: isDenylisted_fresh [of store' a' d, OF entry'] isDenylisted_absent)
  have none: "handlePotentialDenylistError t0 rnd (pre @ ?m) token chainId None = (True, None)"
    using handle_parsed [OF isDenylistError_message parsed] by (simp add: no_database)
  have gen: "handlePotentialDenylistError t0 rnd msg token chainId db =
             (True, addToDenylist t0 rnd tk c db)"
    if "isDenylistError msg \<and> parseTokenFromError msg = Some (c, tk)" for msg c tk db
    using that by (simp add: handle_parsed)
  from handle within after have "\<exists>db'. handlePotentialDenylistError t0 rnd (pre @ ?m)
          token chainId (Some store) = (True, db')
       \<and> (\<forall>t. t - t0 \<le> TTL_MS \<longrightarrow> isDenylisted t a' d db' = (True, db'))
       \<and> (\<forall>t. TTL_MS < t - t0 \<longrightarrow>
             fst (isDenylisted t a' d db') = False
           \<and> (\<forall>t'. fst (isDenylisted t' a' d (snd (isDenylisted t a' d db'))) = False))"
    by blast
  with none gen show ?thesis by (simp add: no_database)
qed

theorem denylist_round_trip_witness:
  "fst (handlePotentialDenylistError 1000 0.5 denyListBody None None (Some Map.empty))
   \<and> fst (isDenylisted 2000 ''0xabcdef0123456789abcdef0123456789abcdef01'' ''42161''
        (snd (handlePotentialDenylistError 1000 0.5 denyListBody None None (Some Map.empty))))
   \<and> \<not> fst (isDenylisted (1000 + TTL_MS + 1) ''0xabcdef0123456789abcdef0123456789abcdef01''
        ''42161''
        (snd (handlePotentialDenylistError 1000 0.5 denyListBody None None (Some Map.empty))))
   \<and> handlePotentialDenylistError 1000 0.5 denyListBody None None None = (True, None)"
proof -
  let ?pre = "''{\"message\":\"''"
  let ?post = "''\",\"code\":1003}''"
  let ?d = "''42161''"
  let ?a = "''0xABCDEF0123456789abcdef0123456789ABCDEF01''"
  let ?a' = "''0xabcdef0123456789abcdef0123456789abcdef01''"
  have body: "denyListBody = ?pre @ ''Token '' @ ?d @ ''-'' @ ?a
      @ '' is invalid or in deny list.'' @ ?post"
    by (simp add: denyListBody_def)
  have d: "?d \<noteq> []" "\<forall>c\<in>set ?d. isDigit c" by (simp_all add: isDigit_def)
  have a: "?a \<noteq> []" "\<forall>c\<in>set ?a. isHexOrX c" by (simp_all add: isHexOrX_def)
  have first: "\<forall>i<length ?pre. matchTokenAt (drop i ?pre @ ''Token '' @ ?d @ ''-'' @ ?a
      @ '' is invalid or in deny list.'' @ ?post) = None"
    by (rule no_match_before) simp_all
  have variant: "toLowerCase ?a' = toLowerCase ?a"
    by (simp add: toLowerCase_def toLowerChar_ascii)
  from denylist_round_trip [OF d a first variant, where ?t0.0 = 1000 and rnd = "0.5" and token = None
      and chainId = None and store = Map.empty]
  obtain db' where h: "handlePotentialDenylistError 1000 0.5 denyListBody None None (Some Map.empty)
        = (True, db')"
    and within: "\<And>t. t - 1000 \<le> TTL_MS \<Longrightarrow> isDenylisted t ?a' ?d db' = (True, db')"
    and after: "\<And>t. TTL_MS < t - 1000 \<Longrightarrow> fst (isDenylisted t ?a' ?d db') = False"
    and none: "handlePotentialDenylistError 1000 0.5 denyListBody None None None = (True, None)"
    unfolding body by blast
  have "(2000::int) - 1000 \<le> TTL_MS" "TTL_MS < (1000 + TTL_MS + 1) - 1000"
    by (simp_all add: TTL_MS_def)
  from within [OF this(1)] after [OF this(2)] h none show ?thesis by simp
qed


section \<open>Properties of the cache keys\<close>

lemma cacheKey_inject: "cacheKey addr' chainId = cacheKey addr chainId \<longleftrightarrow> addr' = addr"
  by (simp add: cacheKey_def)

lemma enrich_checksummed:
  "enrichTokenMetadata checksumTable noLookup checksummedToken ethMainnet Map.empty =
     (Some \<lparr> tm_address = ''0xA0b86991c6218b36c1d19D4a2e9Eb0cE3606eB48'', tm_name = ''USD Coin'',
             tm_symbol = ''USDC'', tm_decimals = 6, tm_logoURI = ''usdc.png'',
             tm_chainId = Some 1 \<rparr>,
      [''0xA0b86991c6218b36c1d19D4a2e9Eb0cE3606eB48-1'' \<mapsto>
         \<lparr> tm_address = ''0xA0b86991c6218b36c1d19D4a2e9Eb0cE3606eB48'', tm_name = ''USD Coin'',
             tm_symbol = ''USDC'', tm_decimals = 6, tm_logoURI = ''usdc.png'',
             tm_chainId = Some 1 \<rparr>])"
  by (simp add: enrichTokenMetadata_def cacheGet_def cacheSet_def cacheKey_def addressOf_def
      checksummedToken_def ethMainnet_def inlineMetadata_def parseInt_def isDigit_def
      digitValue_def)

lemma createKey_eq_iff:
  "createKey token' chainId = createKey token chainId \<longleftrightarrow> toLowerCase token' = toLowerCase token"
  by (simp add: createKey_def)

lemma createKey_inject:
  assumes "CHR ''-'' \<notin> set chainId" "CHR ''-'' \<notin> set chainId'"
  shows "createKey token' chainId' = createKey token chainId \<longleftrightarrow>
           chainId' = chainId \<and> toLowerCase token' = toLowerCase token"
proof
  assume "createKey token' chainId' = createKey token chainId"
  then have "chainId' @ CHR ''-'' # toLowerCase token' = chainId @ CHR ''-'' # toLowerCase token"
    by (simp add: createKey_def)
  with assms(2) assms(1) show "chainId' = chainId \<and> toLowerCase token' = toLowerCase token"
    by (rule split_at_first)
next
  assume "chainId' = chainId \<and> toLowerCase token' = toLowerCase token"
  then show "createKey token' chainId' = createKey token chainId" by (simp add: createKey_def)
qed

lemma cacheKey_inject_chain:
  assumes "CHR ''-'' \<notin> set chainId" "CHR ''-'' \<notin> set chainId'"
  shows "cacheKey addr' chainId' = cacheKey addr chainId \<longleftrightarrow> addr' = addr \<and> chainId' = chainId"
  using hyphen_key_inject [of addr' chainId' addr chainId] assms
  by (auto simp: cacheKey_def)

lemma denylist_case_variant:
  assumes variant: "toLowerCase token' = toLowerCase token" and fresh: "t - now \<le> TTL_MS"
  shows "fst (isDenylisted t token' chainId (addToDenylist now rnd token chainId (Some store)))"
proof -
  have key: "createKey token' chainId = createKey token chainId"
    using variant by (rule createKey_case_insensitive)
  obtain store' where add: "addToDenylist now rnd token chainId (Some store) = Some store'"
    and entry: "store' (createKey token chainId)
        = Some \<lparr> key = createKey token chainId, timestamp = now \<rparr>"
    using addToDenylist_lookup by blast
  from entry key have "store' (createKey token' chainId)
      = Some \<lparr> key = createKey token chainId, timestamp = now \<rparr>" by simp
  then have "fst (isDenylisted t token' chainId (Some store'))"
    using fresh by (simp add: isDenylisted_fresh [of store' token' chainId])
  with add show ?thesis by simp
qed

lemma enrich_cached:
  assumes "cacheGet cache (cacheKey (addressOf token) (net_chainId network)) = Some cached"
  shows "enrichTokenMetadata getAddress getAnyToken token network cache = (Some cached, cache)"
  using assms by (simp add: enrichTokenMetadata_def)

lemma enrich_writes_under_key:
  "snd (enrichTokenMetadata getAddress getAnyToken token network cache) = cache
   \<or> (\<exists>m. enrichTokenMetadata getAddress getAnyToken token network cache =
        (Some m, cacheSet cache (cacheKey (addressOf token) (net_chainId network)) m))"
  by (simp add: enrichTokenMetadata_def fallbackMetadata_def Let_def split: option.splits)

text \<open>
  Claim C7, as the specification states it, fails for the metadata cache: the key that
  \<open>enrichTokenMetadata\<close> builds for \<open>get\<close> and \<open>set\<close> is \<open>address-chainId\<close> with the address
  as it was supplied.  The keys of a checksummed address and of the same address in
  lowercase are different strings, the key of the checksummed address is not in
  lowercase, and the metadata resolved for it is stored under that key.
\<close>

theorem metadata_key_case_sensitive:
  "toLowerCase ''0xA0b86991c6218b36c1d19D4a2e9Eb0cE3606eB48'' =
     toLowerCase ''0xa0b86991c6218b36c1d19d4a2e9eb0ce3606eb48''
   \<and> cacheKey (addressOf checksummedToken) (net_chainId ethMainnet) =
       ''0xA0b86991c6218b36c1d19D4a2e9Eb0cE3606eB48-1''
   \<and> cacheKey (addressOf lowercaseToken) (net_chainId ethMainnet) =
       ''0xa0b86991c6218b36c1d19d4a2e9eb0ce3606eb48-1''
   \<and> cacheKey (addressOf checksummedToken) (net_chainId ethMainnet) \<noteq>
       cacheKey (addressOf lowercaseToken) (net_chainId ethMainnet)
   \<and> toLowerCase (cacheKey (addressOf checksummedToken) (net_chainId ethMainnet)) \<noteq>
       cacheKey (addressOf checksummedToken) (net_chainId ethMainnet)
   \<and> enrichTokenMetadata checksumTable noLookup checksummedToken ethMainnet Map.empty =
       (Some usdcChecksummed,
        cacheSet Map.empty ''0xA0b86991c6218b36c1d19D4a2e9Eb0cE3606eB48-1'' usdcChecksummed)"
proof -
  have low: "toLowerCase ''0xA0b86991c6218b36c1d19D4a2e9Eb0cE3606eB48'' =
     toLowerCase ''0xa0b86991c6218b36c1d19d4a2e9eb0ce3606eb48''"
    by (simp add: toLowerCase_def toLowerChar_ascii)
  have k1: "cacheKey (addressOf checksummedToken) (net_chainId ethMainnet) =
       ''0xA0b86991c6218b36c1d19D4a2e9Eb0cE3606eB48-1''"
    by (simp add: cacheKey_def addressOf_def checksummedToken_def ethMainnet_def)
  have k2: "cacheKey (addressOf lowercaseToken) (net_chainId ethMainnet) =
       ''0xa0b86991c6218b36c1d19d4a2e9eb0ce3606eb48-1''"
    by (simp add: cacheKey_def addressOf_def lowercaseToken_def ethMainnet_def)
  have ne: "toLowerCase ''0xA0b86991c6218b36c1d19D4a2e9Eb0cE3606eB48-1'' \<noteq>
       ''0xA0b86991c6218b36c1d19D4a2e9Eb0cE3606eB48-1''"
    by (simp add: toLowerCase_def toLowerChar_ascii)
  have en: "enrichTokenMetadata checksumTable noLookup checksummedToken ethMainnet Map.empty =
       (Some usdcChecksummed,
        cacheSet Map.empty ''0xA0b86991c6218b36c1d19D4a2e9Eb0cE3606eB48-1'' usdcChecksummed)"
    by (simp add: enrich_checksummed usdcChecksummed_def cacheSet_def)
  show ?thesis
    unfolding k1 k2 using low ne en by simp
qed

text \<open>
  Claim C7, amended.  The key of the denylist is the composite
  \<open>chainId-lowercase(address)\<close>: two addresses on a chain have the same key exactly when
  they agree up to letter case, keys of different chains differ, and a token written to
  the denylist is found under every spelling of its address while the entry is fresh.
  The key that the EVM fetcher passes to the metadata cache is the composite
  \<open>address-chainId\<close> with the address exactly as supplied: two addresses have the same
  key only when they are equal, letter case included, and \<open>enrichTokenMetadata\<close> reads
  the cache under this key and writes under no other.
\<close>

theorem cache_key_normalization:
  "createKey token chainId = chainId @ ''-'' @ toLowerCase token
   \<and> createKey (toLowerCase token) chainId = createKey token chainId
   \<and> (createKey token' chainId = createKey token chainId \<longleftrightarrow>
        toLowerCase token' = toLowerCase token)
   \<and> (CHR ''-'' \<notin> set chainId \<and> CHR ''-'' \<notin> set chainId' \<longrightarrow>
        (createKey token' chainId' = createKey token chainId \<longleftrightarrow>
           chainId' = chainId \<and> toLowerCase token' = toLowerCase token))
   \<and> (toLowerCase token' = toLowerCase token \<longrightarrow>
        (\<forall>t. t - now \<le> TTL_MS \<longrightarrow>
            fst (isDenylisted t token' chainId (addToDenylist now rnd token chainId (Some store)))))
   \<and> cacheKey addr chainId = addr @ ''-'' @ chainId
   \<and> (cacheKey addr' chainId = cacheKey addr chainId \<longleftrightarrow> addr' = addr)
   \<and> (CHR ''-'' \<notin> set chainId \<and> CHR ''-'' \<notin> set chainId' \<longrightarrow>
        (cacheKey addr' chainId' = cacheKey addr chainId \<longleftrightarrow> addr' = addr \<and> chainId' = chainId))
   \<and> (cacheGet cache (cacheKey (addressOf tok) (net_chainId network)) = Some cached \<longrightarrow>
        enrichTokenMetadata getAddress getAnyToken tok network cache = (Some cached, cache))
   \<and> (snd (enrichTokenMetadata getAddress getAnyToken tok network cache) = cache
        \<or> (\<exists>m. enrichTokenMetadata getAddress getAnyToken tok network cache =
              (Some m, cacheSet cache (cacheKey (addressOf tok) (net_chainId network)) m)))"
proof -
  have 1: "createKey token chainId = chainId @ ''-'' @ toLowerCase token"
    by (simp add: createKey_def)
  have 2: "createKey (toLowerCase token) chainId = createKey token chainId"
    by (simp add: createKey_def toLowerCase_idem)
  note 3 = createKey_eq_iff [of token' chainId token]
  have 4: "createKey token' chainId' = createKey token chainId \<longleftrightarrow>
           chainId' = chainId \<and> toLowerCase token' = toLowerCase token"
    if "CHR ''-'' \<notin> set chainId \<and> CHR ''-'' \<notin> set chainId'"
    using that by (simp add: createKey_inject)
  have 5: "\<forall>t. t - now \<le> TTL_MS \<longrightarrow>
            fst (isDenylisted t token' chainId (addToDenylist now rnd token chainId (Some store)))"
    if "toLowerCase token' = toLowerCase token"
    using that by (simp add: denylist_case_variant)
  have 6: "cacheKey addr chainId = addr @ ''-'' @ chainId" by (simp add: cacheKey_def)
  note 7 = cacheKey_inject [of addr' chainId addr]
  have 8: "cacheKey addr' chainId' = cacheKey addr chainId \<longleftrightarrow> addr' = addr \<and> chainId' = chainId"
    if "CHR ''-'' \<notin> set chainId \<and> CHR ''-'' \<notin> set chainId'"
    using that by (simp add: cacheKey_inject_chain)
  have 9: "enrichTokenMetadata getAddress getAnyToken tok network cache = (Some cached, cache)"
    if "cacheGet cache (cacheKey (addressOf tok) (net_chainId network)) = Some cached"
    using that by (rule enrich_cached)
  note 10 = enrich_writes_under_key [of getAddress getAnyToken tok network cache]
  show ?thesis
    apply (intro conjI impI)
    subgoal by (rule 1)
    subgoal by (rule 2)
    subgoal by (rule 3)
    subgoal using 4 by blast
    subgoal using 5 by blast
    subgoal by (rule 6)
    subgoal by (rule 7)
    subgoal using 8 by blast
    subgoal using 9 by blast
    subgoal by (rule 10)
    done
qed

theorem cache_key_normalization_witness:
  "createKey ''0xA0b86991c6218b36c1d19D4a2e9Eb0cE3606eB48'' ''1'' =
     ''1-0xa0b86991c6218b36c1d19d4a2e9eb0ce3606eb48''
   \<and> createKey ''0xA0b86991c6218b36c1d19D4a2e9Eb0cE3606eB48'' ''1'' =
       createKey ''0xa0b86991c6218b36c1d19d4a2e9eb0ce3606eb48'' ''1''
   \<and> createKey ''0xA0b86991c6218b36c1d19D4a2e9Eb0cE3606eB48'' ''42161'' \<noteq>
       createKey ''0xa0b86991c6218b36c1d19d4a2e9eb0ce3606eb48'' ''1''
   \<and> fst (isDenylisted 2000 ''0xA0b86991c6218b36c1d19D4a2e9Eb0cE3606eB48'' ''1''
        (addToDenylist 1000 0.5 ''0xa0b86991c6218b36c1d19d4a2e9eb0ce3606eb48'' ''1''
           (Some Map.empty)))
   \<and> cacheKey ''0xA0b86991c6218b36c1d19D4a2e9Eb0cE3606eB48'' ''42161'' \<noteq>
       cacheKey ''0xA0b86991c6218b36c1d19D4a2e9Eb0cE3606eB48'' ''1''
   \<and> enrichTokenMetadata checksumTable noLookup checksummedToken ethMainnet
        (cacheSet Map.empty ''0xA0b86991c6218b36c1d19D4a2e9Eb0cE3606eB48-1'' usdcMetadata) =
       (Some usdcMetadata,
        cacheSet Map.empty ''0xA0b86991c6218b36c1d19D4a2e9Eb0cE3606eB48-1'' usdcMetadata)"
proof -
  let ?up = "''0xA0b86991c6218b36c1d19D4a2e9Eb0cE3606eB48''"
  let ?lo = "''0xa0b86991c6218b36c1d19d4a2e9eb0ce3606eb48''"
  let ?cache = "cacheSet Map.empty ''0xA0b86991c6218b36c1d19D4a2e9Eb0cE3606eB48-1'' usdcMetadata"
  have variant: "toLowerCase ?up = toLowerCase ?lo"
    and lo: "toLowerCase ?up = ?lo"
    by (simp_all add: toLowerCase_def toLowerChar_ascii)
  have time: "(2000::int) - 1000 \<le> TTL_MS" by (simp add: TTL_MS_def)
  have hy: "CHR ''-'' \<notin> set ''1'' \<and> CHR ''-'' \<notin> set ''42161''" by simp
  have ne: "''42161'' \<noteq> ''1''" by simp
  have hit: "cacheGet ?cache (cacheKey (addressOf checksummedToken) (net_chainId ethMainnet))
      = Some usdcMetadata"
    by (simp add: cacheGet_def cacheSet_def cacheKey_def addressOf_def checksummedToken_def
        ethMainnet_def)
  note t = cache_key_normalization [where token' = ?up and token = ?lo and chainId = "''1''"
      and chainId' = "''42161''" and now = 1000 and rnd = "0.5" and store = Map.empty
      and addr' = ?up and addr = ?up and cache = ?cache and tok = checksummedToken
      and network = ethMainnet and cached = usdcMetadata and getAddress = checksumTable
      and getAnyToken = noLookup]
  note t3 = t [THEN conjunct2, THEN conjunct2, THEN conjunct1]
  note t4 = t [THEN conjunct2, THEN conjunct2, THEN conjunct2, THEN conjunct1, THEN mp, OF hy]
  note t5 = t [THEN conjunct2, THEN conjunct2, THEN conjunct2, THEN conjunct2, THEN conjunct1,
      THEN mp, OF variant, THEN spec, THEN mp, OF time]
  note t8 = t [THEN conjunct2, THEN conjunct2, THEN conjunct2, THEN conjunct2, THEN conjunct2,
      THEN conjunct2, THEN conjunct2, THEN conjunct1, THEN mp, OF hy]
  note t9 = t [THEN conjunct2, THEN conjunct2, THEN conjunct2, THEN conjunct2, THEN conjunct2,
      THEN conjunct2, THEN conjunct2, THEN conjunct2, THEN conjunct1, THEN mp, OF hit]
  have "createKey ?up ''1'' = ''1'' @ ''-'' @ toLowerCase ?up"
    by (rule cache_key_normalization [where token = ?up and chainId = "''1''", THEN conjunct1])
  then have a: "createKey ?up ''1'' = ''1-0xa0b86991c6218b36c1d19d4a2e9eb0ce3606eb48''"
    by (simp add: lo)
  have b: "createKey ?up ''1'' = createKey ?lo ''1''"
    using variant by (rule t3 [THEN iffD2])
  have c: "createKey ?up ''42161'' \<noteq> createKey ?lo ''1''"
  proof
    assume "createKey ?up ''42161'' = createKey ?lo ''1''"
    then have "''42161'' = ''1''" by (rule t4 [THEN iffD1, THEN conjunct1])
    with ne show False by (rule notE)
  qed
  note d = t5
  have e: "cacheKey ?up ''42161'' \<noteq> cacheKey ?up ''1''"
  proof
    assume "cacheKey ?up ''42161'' = cacheKey ?up ''1''"
    then have "''42161'' = ''1''" by (rule t8 [THEN iffD1, THEN conjunct2])
    with ne show False by (rule notE)
  qed
  note f = t9
  from a b c d e f show ?thesis by (intro conjI)
qed


section \<open>Tokens with zero decimals\<close>

lemma inlineMetadata_decimals:
  "inlineMetadata token network = Some m \<Longrightarrow> tm_decimals m \<noteq> 0"
  by (auto simp: inlineMetadata_def split: option.splits if_splits)

lemma inlineMetadata_zero:
  assumes "tokenMetadata token = Some md" and "md_decimals md = Some 0"
  shows "inlineMetadata token network = None"
  using assms by (simp add: inlineMetadata_def split: option.splits)

lemma fallbackMetadata_decimals:
  assumes "fallbackMetadata getAddress getAnyToken token network cache = (Some m, cache')"
  shows "tm_decimals m \<noteq> 0
       \<and> cache' = cacheSet cache (cacheKey (addressOf token) (net_chainId network)) m"
  using assms
  by (auto simp: fallbackMetadata_def Let_def split: option.splits if_splits)

lemma fallbackMetadata_zero:
  assumes "\<And>c. getAddress (addressOf token) = Some c \<Longrightarrow>
      (\<exists>t. getAnyToken c (net_chainId network) = Some t \<and> lifi_decimals t = Some 0)"
  shows "fallbackMetadata getAddress getAnyToken token network cache = (None, cache)"
proof (cases "getAddress (addressOf token)")
  case None
  then show ?thesis by (simp add: fallbackMetadata_def)
next
  case (Some c)
  from assms [OF this] obtain t where "getAnyToken c (net_chainId network) = Some t"
    "lifi_decimals t = Some 0" by blast
  with Some show ?thesis by (simp add: fallbackMetadata_def)
qed

lemma cacheInv_set: "cacheInv cache \<Longrightarrow> tm_decimals m \<noteq> 0 \<Longrightarrow> cacheInv (cacheSet cache k m)"
  by (simp add: cacheInv_def cacheSet_def)

lemma enrich_accepts_nonzero:
  assumes inv: "cacheInv cache"
    and res: "enrichTokenMetadata getAddress getAnyToken token network cache = (Some m, cache')"
  shows "tm_decimals m \<noteq> 0 \<and> cacheInv cache'"
proof (cases "cacheGet cache (cacheKey (addressOf token) (net_chainId network))")
  case (Some cached)
  with res have "m = cached" "cache' = cache" by (simp_all add: enrichTokenMetadata_def)
  with Some inv show ?thesis by (auto simp: cacheInv_def cacheGet_def)
next
  case miss: None
  show ?thesis
  proof (cases "inlineMetadata token network")
    case (Some im)
    with miss res have "m = im"
      "cache' = cacheSet cache (cacheKey (addressOf token) (net_chainId network)) im"
      by (auto simp: enrichTokenMetadata_def)
    with inlineMetadata_decimals [OF Some] inv show ?thesis by (simp add: cacheInv_set)
  next
    case None
    with miss res have "fallbackMetadata getAddress getAnyToken token network cache = (Some m, cache')"
      by (simp add: enrichTokenMetadata_def)
    from fallbackMetadata_decimals [OF this] inv show ?thesis by (simp add: cacheInv_set)
  qed
qed

text \<open>
  Claim C10.  A token whose decimals are 0 is never accepted by the EVM fetcher.  While
  the cache holds no metadata with decimals 0, the metadata returned has decimals other
  than 0 and the cache stays so.  On a cache miss, inline metadata with decimals 0 counts
  as incomplete and the fallback lookup decides; a fallback result with decimals 0 (or a
  failing lookup) gives no metadata and leaves the cache unchanged; so the token
  resolves to nothing and is dropped from the portfolio instead of being converted.
\<close>

theorem zero_decimals_never_accepted:
  "(cacheInv cache \<longrightarrow>
      (\<forall>m cache'. enrichTokenMetadata getAddress getAnyToken token network cache = (Some m, cache')
          \<longrightarrow> tm_decimals m \<noteq> 0 \<and> cacheInv cache'))
   \<and> (cacheGet cache (cacheKey (addressOf token) (net_chainId network)) = None
        \<and> (\<exists>md. tokenMetadata token = Some md \<and> md_decimals md = Some 0) \<longrightarrow>
        inlineMetadata token network = None
        \<and> enrichTokenMetadata getAddress getAnyToken token network cache =
            fallbackMetadata getAddress getAnyToken token network cache)
   \<and> ((\<forall>c. getAddress (addressOf token) = Some c \<longrightarrow>
           (\<exists>t. getAnyToken c (net_chainId network) = Some t \<and> lifi_decimals t = Some 0)) \<longrightarrow>
        fallbackMetadata getAddress getAnyToken token network cache = (None, cache))
   \<and> (cacheGet cache (cacheKey (addressOf token) (net_chainId network)) = None
        \<and> (\<exists>md. tokenMetadata token = Some md \<and> md_decimals md = Some 0)
        \<and> (\<forall>c. getAddress (addressOf token) = Some c \<longrightarrow>
           (\<exists>t. getAnyToken c (net_chainId network) = Some t \<and> lifi_decimals t = Some 0)) \<longrightarrow>
        enrichTokenMetadata getAddress getAnyToken token network cache = (None, cache))
   \<and> (find (\<lambda>n. net_networkId n = tok_network token) SUPPORTED_NETWORKS = Some network
        \<and> enrichTokenMetadata getAddress getAnyToken token network cache = (None, cache) \<longrightarrow>
        resolveToken getAddress getAnyToken token cache = (None, cache))"
proof -
  have a: "tm_decimals m \<noteq> 0 \<and> cacheInv cache'"
    if "cacheInv cache"
      "enrichTokenMetadata getAddress getAnyToken token network cache = (Some m, cache')"
    for m cache'
    using that by (rule enrich_accepts_nonzero)
  have b: "inlineMetadata token network = None
        \<and> enrichTokenMetadata getAddress getAnyToken token network cache =
            fallbackMetadata getAddress getAnyToken token network cache"
    if "cacheGet cache (cacheKey (addressOf token) (net_chainId network)) = None"
      "\<exists>md. tokenMetadata token = Some md \<and> md_decimals md = Some 0"
    using that by (auto simp: enrichTokenMetadata_def inlineMetadata_zero)
  have c: "fallbackMetadata getAddress getAnyToken token network cache = (None, cache)"
    if "\<forall>c. getAddress (addressOf token) = Some c \<longrightarrow>
           (\<exists>t. getAnyToken c (net_chainId network) = Some t \<and> lifi_decimals t = Some 0)"
    using that by (intro fallbackMetadata_zero) blast
  have d: "resolveToken getAddress getAnyToken token cache = (None, cache)"
    if "find (\<lambda>n. net_networkId n = tok_network token) SUPPORTED_NETWORKS = Some network"
      "enrichTokenMetadata getAddress getAnyToken token network cache = (None, cache)"
    using that by (simp add: resolveToken_def)
  from b c have e: "enrichTokenMetadata getAddress getAnyToken token network cache = (None, cache)"
    if "cacheGet cache (cacheKey (addressOf token) (net_chainId network)) = None"
      "\<exists>md. tokenMetadata token = Some md \<and> md_decimals md = Some 0"
      "\<forall>c. getAddress (addressOf token) = Some c \<longrightarrow>
           (\<exists>t. getAnyToken c (net_chainId network) = Some t \<and> lifi_decimals t = Some 0)"
    using that by simp
  show ?thesis
  proof (intro conjI impI allI)
  qed (use a b c d e in \<open>blast+\<close>)
qed

theorem zero_decimals_never_accepted_witness:
  "inlineMetadata zeroDecimalsToken ethMainnet = None
   \<and> enrichTokenMetadata checksumTable zeroDecimalsLookup zeroDecimalsToken ethMainnet Map.empty
       = (None, Map.empty)
   \<and> resolveToken checksumTable zeroDecimalsLookup zeroDecimalsToken Map.empty = (None, Map.empty)
   \<and> cacheInv (snd (enrichTokenMetadata checksumTable noLookup checksummedToken ethMainnet Map.empty))
   \<and> map_option tm_decimals
        (fst (enrichTokenMetadata checksumTable noLookup checksummedToken ethMainnet Map.empty))
       = Some 6"
proof -
  have miss: "cacheGet Map.empty (cacheKey (addressOf zeroDecimalsToken) (net_chainId ethMainnet))
      = None" by (simp add: cacheGet_def)
  have inline: "\<exists>md. tokenMetadata zeroDecimalsToken = Some md \<and> md_decimals md = Some 0"
    by (simp add: zeroDecimalsToken_def)
  have fallback: "\<forall>c. checksumTable (addressOf zeroDecimalsToken) = Some c \<longrightarrow>
      (\<exists>t. zeroDecimalsLookup c (net_chainId ethMainnet) = Some t \<and> lifi_decimals t = Some 0)"
    by (simp add: zeroDecimalsLookup_def)
  have net: "find (\<lambda>n. net_networkId n = tok_network zeroDecimalsToken) SUPPORTED_NETWORKS
      = Some ethMainnet"
    by (simp add: SUPPORTED_NETWORKS_def zeroDecimalsToken_def ethMainnet_def)
  from zero_decimals_never_accepted [where cache = Map.empty and token = zeroDecimalsToken
      and network = ethMainnet and getAddress = checksumTable and getAnyToken = zeroDecimalsLookup]
    miss inline fallback net
  have dropped: "inlineMetadata zeroDecimalsToken ethMainnet = None
   \<and> enrichTokenMetadata checksumTable zeroDecimalsLookup zeroDecimalsToken ethMainnet Map.empty
       = (None, Map.empty)
   \<and> resolveToken checksumTable zeroDecimalsLookup zeroDecimalsToken Map.empty = (None, Map.empty)"
    by blast
  have empty: "cacheInv Map.empty" by (simp add: cacheInv_def)
  obtain m c where res: "enrichTokenMetadata checksumTable noLookup checksummedToken ethMainnet
      Map.empty = (Some m, c)" and six: "tm_decimals m = 6"
    using enrich_checksummed by simp
  from zero_decimals_never_accepted [where cache = Map.empty and token = checksummedToken
      and network = ethMainnet and getAddress = checksumTable and getAnyToken = noLookup]
    empty res
  have "tm_decimals m \<noteq> 0 \<and> cacheInv c" by blast
  with res six dropped show ?thesis by simp
qed


section \<open>Properties of the rate limiter\<close>

subsection \<open>Pruning and counting\<close>

lemma filter_refine:
  assumes "\<And>x. Q x \<Longrightarrow> P x" and "filter P xs = filter P ys"
  shows "filter Q xs = filter Q ys"
proof -
  have "filter Q zs = filter Q (filter P zs)" for zs :: "'a list"
    using assms(1) by (auto intro: filter_cong)
  with assms(2) show ?thesis by metis
qed

lemma cleanup_later:
  assumes "t \<le> t'"
    and "cleanupOldRequests options t xs = cleanupOldRequests options t ys"
  shows "cleanupOldRequests options t' xs = cleanupOldRequests options t' ys"
  using assms(2) unfolding cleanupOldRequests_def
  by (rule filter_refine [rotated]) (use assms(1) in simp)

lemma cleanup_cleanup:
  assumes "t \<le> t'"
  shows "cleanupOldRequests options t' (cleanupOldRequests options t xs) =
         cleanupOldRequests options t' xs"
  using assms unfolding cleanupOldRequests_def by (auto intro: filter_cong)

lemma cleanup_append:
  "cleanupOldRequests options t (xs @ ys) =
     cleanupOldRequests options t xs @ cleanupOldRequests options t ys"
  by (simp add: cleanupOldRequests_def)

lemma length_filter_mono:
  assumes "\<And>x. x \<in> set xs \<Longrightarrow> Q x \<Longrightarrow> P x"
  shows "length (filter Q xs) \<le> length (filter P xs)"
  using assms
proof (induction xs)
  case Nil
  show ?case by simp
next
  case (Cons a xs)
  then have "length (filter Q xs) \<le> length (filter P xs)" by simp
  with Cons.prems [of a] show ?case by auto
qed

lemma window_count_push:
  assumes bound: "\<And>x. length (filter (inWindow options x) adm) \<le> nat (maxRequests options)"
    and room: "int (length (cleanupOldRequests options t1 adm)) < maxRequests options"
    and "t1 \<le> t2"
  shows "length (filter (inWindow options x) (adm @ [t2])) \<le> nat (maxRequests options)"
proof (cases "inWindow options x t2")
  case False
  with bound [of x] show ?thesis by simp
next
  case True
  have "length (filter (inWindow options x) adm) \<le> length (cleanupOldRequests options t1 adm)"
    unfolding cleanupOldRequests_def
  proof (rule length_filter_mono)
    fix ts assume "inWindow options x ts"
    with True \<open>t1 \<le> t2\<close> show "t1 - ts < windowMs options"
      by (simp add: inWindow_def)
  qed
  with room True show ?thesis by simp
qed

lemma attempt_requests:
  "fst (attempt options t1 t2 reqs retries :: int list \<times> 'a call) =
     (if retries \<le> maxRetries options
      then (if admits options t1 reqs retries
            then cleanupOldRequests options t1 reqs @ [t2]
            else cleanupOldRequests options t1 reqs)
      else reqs)"
  by (simp add: attempt_def admits_def Let_def split: option.split)

lemma admits_retries: "admits options t1 reqs retries \<Longrightarrow> retries \<le> maxRetries options"
  by (simp add: admits_def)

lemma windowInv_initial: "windowInv options (initialLimiter t0)"
  by (simp add: windowInv_def initialLimiter_def cleanupOldRequests_def)

lemma windowInv_time:
  assumes "windowInv options s" and "clock s \<le> t"
    and "clock s' = t" "requests s' = requests s" "admitted s' = admitted s"
  shows "windowInv options s'"
  using assms cleanup_later [of "clock s" t options "requests s" "admitted s"]
  by (simp add: windowInv_def)

lemma windowInv_run:
  assumes inv: "windowInv options s" and t: "clock s \<le> t1" "t1 \<le> t2"
    and s': "clock s' = t2"
      "requests s' = fst (attempt options t1 t2 (requests s) retries :: int list \<times> 'a call)"
      "admitted s' = (if admits options t1 (requests s) retries
                      then admitted s @ [t2] else admitted s)"
  shows "windowInv options s'"
proof -
  from inv have eq0: "cleanupOldRequests options (clock s) (requests s) =
      cleanupOldRequests options (clock s) (admitted s)"
    and bound: "\<And>x. length (filter (inWindow options x) (admitted s)) \<le> nat (maxRequests options)"
    by (simp_all add: windowInv_def)
  from t have t02: "clock s \<le> t2" by simp
  have eq1: "cleanupOldRequests options t1 (requests s) = cleanupOldRequests options t1 (admitted s)"
    using t(1) eq0 by (rule cleanup_later)
  have eq2: "cleanupOldRequests options t2 (requests s) = cleanupOldRequests options t2 (admitted s)"
    using t02 eq0 by (rule cleanup_later)
  show ?thesis
  proof (cases "admits options t1 (requests s) retries")
    case True
    then have r: "retries \<le> maxRetries options"
      and room: "int (length (cleanupOldRequests options t1 (admitted s))) < maxRequests options"
      using eq1 by (simp_all add: admits_def)
    have "cleanupOldRequests options t2 (requests s') = cleanupOldRequests options t2 (admitted s')"
      using True r eq2 t(2) by (simp add: s' attempt_requests cleanup_append cleanup_cleanup)
    moreover have "length (filter (inWindow options x) (admitted s')) \<le> nat (maxRequests options)" for x
      using True window_count_push [OF bound room t(2)] by (simp add: s')
    ultimately show ?thesis by (simp add: windowInv_def s'(1))
  next
    case False
    have "cleanupOldRequests options t2 (requests s') = cleanupOldRequests options t2 (admitted s')"
      using False eq2 t(2) by (simp add: s' attempt_requests cleanup_cleanup)
    with False bound show ?thesis by (simp add: windowInv_def s')
  qed
qed

lemma applyEvent_Start:
  assumes "applyEvent options s Start = Some s'"
  shows "clock s' = clock s \<and> requests s' = requests s \<and> admitted s' = admitted s
       \<and> calls s' = calls s @ [LoopHead 0] \<and> rejections s' = rejections s @ [[]]"
  using assms by (auto simp: applyEvent_def)

lemma applyEvent_Run:
  fixes s :: "'a limiter"
  assumes "applyEvent options s (Run i t1 t2) = Some s'"
  shows "\<exists>retries. i < length (calls s) \<and> calls s ! i = LoopHead retries
       \<and> clock s \<le> t1 \<and> t1 \<le> t2 \<and> clock s' = t2
       \<and> requests s' = fst (attempt options t1 t2 (requests s) retries :: int list \<times> 'a call)
       \<and> admitted s' = (if admits options t1 (requests s) retries
                         then admitted s @ [t2] else admitted s)
       \<and> calls s' = (calls s)[i := snd (attempt options t1 t2 (requests s) retries)]
       \<and> rejections s' = rejections s"
proof -
  from assms have i: "i < length (calls s)" and t: "clock s \<le> t1" "t1 \<le> t2"
    by (auto simp: applyEvent_def split: if_splits)
  from assms i t obtain retries where c: "calls s ! i = LoopHead retries"
    by (cases "calls s ! i") (auto simp: applyEvent_def)
  obtain reqs' c' where a: "attempt options t1 t2 (requests s) retries = (reqs', c' :: 'a call)"
    by (cases "attempt options t1 t2 (requests s) retries :: int list \<times> 'a call")
  from assms i t c a have "s' = s\<lparr> clock := t2, requests := reqs',
      admitted := (if admits options t1 (requests s) retries then admitted s @ [t2] else admitted s),
      calls := (calls s)[i := c'] \<rparr>"
    by (simp add: applyEvent_def)
  with i t c a show ?thesis by simp
qed

lemma applyEvent_Settle:
  assumes "applyEvent options s (Settle i t outcome) = Some s'"
  shows "\<exists>retries. i < length (calls s) \<and> calls s ! i = AwaitFn retries
       \<and> clock s \<le> t \<and> clock s' = t \<and> requests s' = requests s \<and> admitted s' = admitted s
       \<and> calls s' = (calls s)[i := afterFn options t retries outcome]
       \<and> rejections s' = (case outcome of
                             Rejected error \<Rightarrow> (rejections s)[i := rejections s ! i @ [error]]
                           | Resolved result \<Rightarrow> rejections s)"
proof -
  from assms have i: "i < length (calls s)" and t: "clock s \<le> t"
    by (auto simp: applyEvent_def split: if_splits)
  from assms i t obtain retries where c: "calls s ! i = AwaitFn retries"
    by (cases "calls s ! i") (auto simp: applyEvent_def)
  from assms i t c show ?thesis by (auto simp: applyEvent_def)
qed

lemma applyEvent_Wake:
  assumes "applyEvent options s (Wake i t) = Some s'"
  shows "\<exists>retries wakeAt. i < length (calls s) \<and> calls s ! i = AwaitWait retries wakeAt
       \<and> wakeAt \<le> t \<and> clock s \<le> t \<and> clock s' = t \<and> requests s' = requests s
       \<and> admitted s' = admitted s \<and> calls s' = (calls s)[i := LoopHead retries]
       \<and> rejections s' = rejections s"
proof -
  from assms have i: "i < length (calls s)" and t: "clock s \<le> t"
    by (auto simp: applyEvent_def split: if_splits)
  from assms i t obtain retries wakeAt where c: "calls s ! i = AwaitWait retries wakeAt"
    by (cases "calls s ! i") (auto simp: applyEvent_def)
  from assms i t c show ?thesis by (auto simp: applyEvent_def split: if_splits)
qed

lemma windowInv_applyEvent:
  fixes s :: "'a limiter"
  assumes "windowInv options s" and "applyEvent options s ev = Some s'"
  shows "windowInv options s'"
proof (cases ev)
  case Start
  with assms(2) have "clock s' = clock s" "requests s' = requests s" "admitted s' = admitted s"
    by (auto dest: applyEvent_Start)
  with assms(1) show ?thesis by (intro windowInv_time [of options s "clock s" s']) simp_all
next
  case (Run i t1 t2)
  with assms(2) obtain retries where t: "clock s \<le> t1" "t1 \<le> t2"
    and s': "clock s' = t2"
      "requests s' = fst (attempt options t1 t2 (requests s) retries :: int list \<times> 'a call)"
      "admitted s' = (if admits options t1 (requests s) retries
                      then admitted s @ [t2] else admitted s)"
    by (auto dest: applyEvent_Run)
  show ?thesis
    by (rule windowInv_run [OF assms(1) t s'])
next
  case (Settle i t outcome)
  with assms(2) have "clock s \<le> t" "clock s' = t" "requests s' = requests s"
    "admitted s' = admitted s"
    by (auto dest: applyEvent_Settle)
  with assms(1) show ?thesis by (intro windowInv_time [of options s t s']) simp_all
next
  case (Wake i t)
  with assms(2) have "clock s \<le> t" "clock s' = t" "requests s' = requests s"
    "admitted s' = admitted s"
    by (auto dest: applyEvent_Wake)
  with assms(1) show ?thesis by (intro windowInv_time [of options s t s']) simp_all
qed

lemma windowInv_run_events:
  "windowInv options s \<Longrightarrow> run options s evs = Some s' \<Longrightarrow> windowInv options s'"
proof (induction evs arbitrary: s)
  case Nil
  then show ?case by simp
next
  case (Cons ev evs)
  from Cons.prems(2) obtain s1 where s1: "applyEvent options s ev = Some s1"
    and rest: "run options s1 evs = Some s'"
    by (auto split: option.splits)
  from Cons.prems(1) s1 have "windowInv options s1" by (rule windowInv_applyEvent)
  from Cons.IH [OF this rest] show ?case .
qed

lemma minOf_Some:
  assumes "minOf xs = Some m"
  shows "m \<in> set xs \<and> (\<forall>x\<in>set xs. m \<le> x)"
proof (cases xs)
  case Nil
  with assms show ?thesis by simp
next
  case (Cons y ys)
  with assms have "m = fold min ys y" by simp
  also have "\<dots> = Min (set (y # ys))" by (rule Min.set_eq_fold [symmetric])
  finally have "m = Min (set xs)" using Cons by simp
  moreover have "set xs \<noteq> {}" "finite (set xs)" using Cons by simp_all
  ultimately show ?thesis using Min_in [of "set xs"] Min_le [of "set xs"] by blast
qed

lemma attempt_admits:
  assumes "admits options t1 reqs retries"
  shows "(attempt options t1 t2 reqs retries :: int list \<times> 'a call)
       = (cleanupOldRequests options t1 reqs @ [t2], AwaitFn retries)"
  using assms by (simp add: attempt_def admits_def)

lemma attempt_no_admission:
  assumes "\<not> admits options t1 reqs retries"
  shows "set (fst (attempt options t1 t2 reqs retries :: int list \<times> 'a call)) \<subseteq> set reqs
       \<and> (\<forall>r. snd (attempt options t1 t2 reqs retries :: int list \<times> 'a call) \<noteq> AwaitFn r)"
  using assms
  by (auto simp: attempt_def admits_def Let_def cleanupOldRequests_def split: option.splits)

lemma attempt_window_full:
  assumes "retries \<le> maxRetries options" and "\<not> admits options t1 reqs retries"
    and "minOf (cleanupOldRequests options t1 reqs) = Some oldest"
  shows "(attempt options t1 t2 reqs retries :: int list \<times> 'a call) =
     (cleanupOldRequests options t1 reqs,
      if windowMs options - (t2 - oldest) + 100 > 0
      then AwaitWait retries (t2 + (windowMs options - (t2 - oldest) + 100))
      else LoopHead retries)"
  using assms by (simp add: attempt_def admits_def Let_def)

lemma pruned_after_wait:
  assumes "t2 + (windowMs options - (t2 - oldest) + 100) \<le> t"
  shows "oldest \<notin> set (cleanupOldRequests options t reqs)"
  using assms by (simp add: cleanupOldRequests_def)

lemma window_bound:
  fixes s :: "'a limiter"
  assumes "run options (initialLimiter t0) evs = Some s"
  shows "length (filter (inWindow options x) (admitted s)) \<le> nat (maxRequests options)"
  using windowInv_run_events [OF windowInv_initial assms] by (simp add: windowInv_def)

lemma tooManyRequests_rate_limit: "isRateLimitError tooManyRequests"
  by (simp add: isRateLimitError_def tooManyRequests_def)

lemma jupiter_options:
  "jupiterRateLimiter = \<lparr> maxRequests = 10, windowMs = 1000, retryAfterMs = 2000, maxRetries = 3 \<rparr>"
  by (simp add: jupiterRateLimiter_def newRateLimiter_def)

lemma onePerSecond_options:
  "onePerSecond = \<lparr> maxRequests = 1, windowMs = 1000, retryAfterMs = 1000, maxRetries = 3 \<rparr>"
  by (simp add: onePerSecond_def newRateLimiter_def)

lemma run_alwaysRateLimited:
  "run jupiterRateLimiter (initialLimiter 0) alwaysRateLimited = Some alwaysRateLimitedEnd"
  by (simp add: alwaysRateLimited_def alwaysRateLimitedEnd_def initialLimiter_def jupiter_options
      applyEvent_def attempt_def admits_def afterFn_def cleanupOldRequests_def
      tooManyRequests_rate_limit Let_def)

lemma run_twoCalls:
  "run onePerSecond (initialLimiter 0) twoCalls = Some twoCallsEnd"
  by (simp add: twoCalls_def twoCallsEnd_def initialLimiter_def onePerSecond_options
      applyEvent_def attempt_def admits_def afterFn_def cleanupOldRequests_def Let_def)

lemma pass_at_head:
  fixes s :: "'a limiter"
  assumes "i < length (calls s)" "calls s ! i = LoopHead retries" "clock s \<le> t1" "t1 \<le> t2"
  shows "applyEvent options s (Run i t1 t2) =
           Some (s\<lparr> clock := t2,
                    requests := fst (attempt options t1 t2 (requests s) retries :: int list \<times> 'a call),
                    admitted := (if admits options t1 (requests s) retries
                                 then admitted s @ [t2] else admitted s),
                    calls := (calls s)[i := snd (attempt options t1 t2 (requests s) retries)] \<rparr>)"
  using assms by (simp add: applyEvent_def split: prod.splits)

lemma timer_fires:
  fixes s :: "'a limiter"
  assumes "i < length (calls s)" "calls s ! i = AwaitWait retries wakeAt" "clock s \<le> t"
  shows "applyEvent options s (Wake i t) =
           (if wakeAt \<le> t then Some (s\<lparr> clock := t, calls := (calls s)[i := LoopHead retries] \<rparr>)
            else None)"
  using assms by (simp add: applyEvent_def)

lemma wait_then_retry:
  fixes s :: "'a limiter"
  assumes i: "i < length (calls s)" and h: "calls s ! i = LoopHead retries"
    and r: "retries \<le> maxRetries options"
    and full: "\<not> admits options t1 (requests s) retries"
    and old: "minOf (cleanupOldRequests options t1 (requests s)) = Some oldest"
    and pos: "0 < windowMs options - (t2 - oldest) + 100"
    and t: "clock s \<le> t1" "t1 \<le> t2" "t2 + (windowMs options - (t2 - oldest) + 100) \<le> t"
           "t \<le> t3" "t3 \<le> t4"
  shows "\<exists>s'. run options s [Run i t1 t2, Wake i t, Run i t3 t4] = Some s'
           \<and> requests s' = fst (attempt options t3 t4
                 (cleanupOldRequests options t1 (requests s)) retries :: int list \<times> 'a call)
           \<and> calls s' ! i = snd (attempt options t3 t4
                 (cleanupOldRequests options t1 (requests s)) retries)
           \<and> admitted s' = (if admits options t3 (cleanupOldRequests options t1 (requests s)) retries
                             then admitted s @ [t4] else admitted s)"
proof -
  let ?w = "t2 + (windowMs options - (t2 - oldest) + 100)"
  let ?reqs = "cleanupOldRequests options t1 (requests s)"
  have a: "(attempt options t1 t2 (requests s) retries :: int list \<times> 'a call)
             = (?reqs, AwaitWait retries ?w)"
    using attempt_window_full [OF r full old, of t2] pos by simp
  define s1 where "s1 = s\<lparr> clock := t2, requests := ?reqs,
       calls := (calls s)[i := AwaitWait retries ?w] \<rparr>"
  have e1: "applyEvent options s (Run i t1 t2) = Some s1"
    using pass_at_head [OF i h t(1,2), of options] a full by (simp add: s1_def)
  have i1: "i < length (calls s1)" "calls s1 ! i = AwaitWait retries ?w" "clock s1 \<le> t"
    using i t pos by (simp_all add: s1_def)
  define s2 where "s2 = s1\<lparr> clock := t, calls := (calls s1)[i := LoopHead retries] \<rparr>"
  have e2: "applyEvent options s1 (Wake i t) = Some s2"
    using timer_fires [OF i1, of options] t(3) by (simp add: s2_def)
  have i2: "i < length (calls s2)" "calls s2 ! i = LoopHead retries" "clock s2 \<le> t3"
    using i t by (simp_all add: s2_def s1_def)
  have rq: "requests s2 = ?reqs" "admitted s2 = admitted s" by (simp_all add: s2_def s1_def)
  note e3 = pass_at_head [OF i2 t(5), of options]
  show ?thesis
    using e1 e2 e3 i2(1) by (simp add: rq)
qed

text \<open>
  Claim C1.  Whatever calls of \<open>execute\<close> are made, however they interleave at their
  \<open>await\<close>s and whenever their operations settle and their timers fire, every half-open
  window of length \<open>windowMs\<close> holds at most \<open>maxRequests\<close> admissions (the clock not
  running backwards).  A pass of the loop pushes a time stamp and invokes the operation
  exactly when fewer than \<open>maxRequests\<close> time stamps remain after pruning.  Otherwise it
  pushes nothing and keeps \<open>retries\<close> as it is: it waits
  \<open>windowMs - (now - oldest) + 100\<close> milliseconds (or runs the next pass at once when
  that is not positive), and from the end of that wait on the oldest time stamp is
  pruned.  The timer of a waiting call does not fire before it is due; when it fires,
  the call is back at the head of the loop with \<open>retries\<close> and the list of requests as
  they were, and a call at the head of the loop runs a pass.  So a call that found the
  window full, waited and ran again has made the pass that its unchanged \<open>retries\<close>
  gives on the list pruned before the wait: it is admitted when the window has room by
  then.
\<close>

theorem sliding_window_invariant:
  fixes s s0 :: "'a limiter"
  shows
  "(run options (initialLimiter t0) evs = Some s \<longrightarrow>
      (\<forall>x. length (filter (\<lambda>ts. x < ts \<and> ts \<le> x + windowMs options) (admitted s))
            \<le> nat (maxRequests options))
    \<and> (\<forall>x. length (filter (\<lambda>ts. x \<le> ts \<and> ts < x + windowMs options) (admitted s))
            \<le> nat (maxRequests options)))
   \<and> (admits options t1 reqs retries \<longrightarrow>
        (attempt options t1 t2 reqs retries :: int list \<times> 'a call)
          = (cleanupOldRequests options t1 reqs @ [t2], AwaitFn retries))
   \<and> (\<not> admits options t1 reqs retries \<longrightarrow>
        set (fst (attempt options t1 t2 reqs retries :: int list \<times> 'a call)) \<subseteq> set reqs
        \<and> (\<forall>r. snd (attempt options t1 t2 reqs retries :: int list \<times> 'a call) \<noteq> AwaitFn r))
   \<and> (retries \<le> maxRetries options \<and> \<not> admits options t1 reqs retries
        \<and> minOf (cleanupOldRequests options t1 reqs) = Some oldest \<longrightarrow>
        (attempt options t1 t2 reqs retries :: int list \<times> 'a call) =
          (cleanupOldRequests options t1 reqs,
           if windowMs options - (t2 - oldest) + 100 > 0
           then AwaitWait retries (t2 + (windowMs options - (t2 - oldest) + 100))
           else LoopHead retries)
        \<and> oldest \<in> set (cleanupOldRequests options t1 reqs)
        \<and> (\<forall>ts\<in>set (cleanupOldRequests options t1 reqs). oldest \<le> ts)
        \<and> (\<forall>t reqs'. t2 + (windowMs options - (t2 - oldest) + 100) \<le> t \<longrightarrow>
              oldest \<notin> set (cleanupOldRequests options t reqs')))
   \<and> (i < length (calls s0) \<and> calls s0 ! i = LoopHead retries \<and> clock s0 \<le> t1 \<and> t1 \<le> t2 \<longrightarrow>
        applyEvent options s0 (Run i t1 t2) =
          Some (s0\<lparr> clock := t2,
                    requests := fst (attempt options t1 t2 (requests s0) retries :: int list \<times> 'a call),
                    admitted := (if admits options t1 (requests s0) retries
                                 then admitted s0 @ [t2] else admitted s0),
                    calls := (calls s0)[i := snd (attempt options t1 t2 (requests s0) retries)] \<rparr>))
   \<and> (i < length (calls s0) \<and> calls s0 ! i = AwaitWait retries wakeAt \<and> clock s0 \<le> t \<longrightarrow>
        applyEvent options s0 (Wake i t) =
          (if wakeAt \<le> t
           then Some (s0\<lparr> clock := t, calls := (calls s0)[i := LoopHead retries] \<rparr>)
           else None))
   \<and> (i < length (calls s0) \<and> calls s0 ! i = LoopHead retries
        \<and> retries \<le> maxRetries options \<and> \<not> admits options t1 (requests s0) retries
        \<and> minOf (cleanupOldRequests options t1 (requests s0)) = Some oldest
        \<and> 0 < windowMs options - (t2 - oldest) + 100
        \<and> clock s0 \<le> t1 \<and> t1 \<le> t2
        \<and> t2 + (windowMs options - (t2 - oldest) + 100) \<le> t \<and> t \<le> t3 \<and> t3 \<le> t4 \<longrightarrow>
        (\<exists>s'. run options s0 [Run i t1 t2, Wake i t, Run i t3 t4] = Some s'
           \<and> requests s' = fst (attempt options t3 t4
                 (cleanupOldRequests options t1 (requests s0)) retries :: int list \<times> 'a call)
           \<and> calls s' ! i = snd (attempt options t3 t4
                 (cleanupOldRequests options t1 (requests s0)) retries)
           \<and> admitted s' = (if admits options t3 (cleanupOldRequests options t1 (requests s0)) retries
                             then admitted s0 @ [t4] else admitted s0)))"
proof -
  have a: "length (filter (\<lambda>ts. x < ts \<and> ts \<le> x + windowMs options) (admitted s))
            \<le> nat (maxRequests options)"
    if "run options (initialLimiter t0) evs = Some s" for x
    using window_bound [OF that, of x] by (simp add: inWindow_def [abs_def])
  have b: "length (filter (\<lambda>ts. x \<le> ts \<and> ts < x + windowMs options) (admitted s))
            \<le> nat (maxRequests options)"
    if r: "run options (initialLimiter t0) evs = Some s" for x
  proof -
    have "(\<lambda>ts. x \<le> ts \<and> ts < x + windowMs options) = inWindow options (x - 1)"
      by (auto simp: inWindow_def fun_eq_iff)
    with window_bound [OF r, of "x - 1"] show ?thesis by simp
  qed
  have c: "(attempt options t1 t2 reqs retries :: int list \<times> 'a call)
          = (cleanupOldRequests options t1 reqs @ [t2], AwaitFn retries)"
    if "admits options t1 reqs retries"
    using that by (rule attempt_admits)
  have d: "set (fst (attempt options t1 t2 reqs retries :: int list \<times> 'a call)) \<subseteq> set reqs
        \<and> (\<forall>r. snd (attempt options t1 t2 reqs retries :: int list \<times> 'a call) \<noteq> AwaitFn r)"
    if "\<not> admits options t1 reqs retries"
    using that by (rule attempt_no_admission)
  have e: "(attempt options t1 t2 reqs retries :: int list \<times> 'a call) =
          (cleanupOldRequests options t1 reqs,
           if windowMs options - (t2 - oldest) + 100 > 0
           then AwaitWait retries (t2 + (windowMs options - (t2 - oldest) + 100))
           else LoopHead retries)
        \<and> oldest \<in> set (cleanupOldRequests options t1 reqs)
        \<and> (\<forall>ts\<in>set (cleanupOldRequests options t1 reqs). oldest \<le> ts)
        \<and> (\<forall>t reqs'. t2 + (windowMs options - (t2 - oldest) + 100) \<le> t \<longrightarrow>
              oldest \<notin> set (cleanupOldRequests options t reqs'))"
    if "retries \<le> maxRetries options" "\<not> admits options t1 reqs retries"
       "minOf (cleanupOldRequests options t1 reqs) = Some oldest"
    using attempt_window_full [OF that] minOf_Some [OF that(3)] pruned_after_wait
    by blast
  note f = pass_at_head [of i s0 retries t1 t2 options]
  note g = timer_fires [of i s0 retries wakeAt t options]
  note h = wait_then_retry [of i s0 retries options t1 oldest t2 t t3 t4]
  show ?thesis
    apply (intro conjI impI)
    subgoal using a by blast
    subgoal using b by blast
    subgoal using c by blast
    subgoal using d by blast
    subgoal using d by blast
    subgoal using e by blast
    subgoal using e by blast
    subgoal using e by blast
    subgoal using e by blast
    subgoal using f by blast
    subgoal using g by blast
    subgoal using h by blast
    done
qed

theorem sliding_window_invariant_witness:
  "length (filter (\<lambda>ts. 101 < ts \<and> ts \<le> 101 + windowMs onePerSecond) (admitted twoCallsEnd))
     \<le> nat (maxRequests onePerSecond)
   \<and> admitted twoCallsEnd = [0, 1101]
   \<and> (attempt onePerSecond 500 500 [0] 0 :: int list \<times> unit call) = ([0], AwaitWait 0 1100)
   \<and> 0 \<notin> set (cleanupOldRequests onePerSecond 1100 [0])
   \<and> (attempt onePerSecond 1100 1101 [0] 0 :: int list \<times> unit call) = ([1101], AwaitFn 0)
   \<and> run onePerSecond (initialLimiter 0) (take 3 twoCalls) = Some twoCallsAdmitted
   \<and> applyEvent onePerSecond twoCallsAdmitted (Run 1 500 500) = Some twoCallsWaiting
   \<and> applyEvent onePerSecond twoCallsWaiting (Wake 1 1099) = None
   \<and> applyEvent onePerSecond twoCallsWaiting (Wake 1 1100) =
       Some (twoCallsWaiting\<lparr> clock := 1100, calls := [AwaitFn 0, LoopHead 0] \<rparr>)
   \<and> (\<exists>s'. run onePerSecond twoCallsAdmitted [Run 1 500 500, Wake 1 1100, Run 1 1100 1101] = Some s'
         \<and> requests s' = [1101] \<and> calls s' ! 1 = AwaitFn 0 \<and> admitted s' = [0, 1101])"
proof -
  have full: "\<not> admits onePerSecond 500 [0] 0"
    by (simp add: admits_def onePerSecond_options cleanupOldRequests_def)
  have free: "admits onePerSecond 1100 [0] 0"
    by (simp add: admits_def onePerSecond_options cleanupOldRequests_def)
  have oldest: "minOf (cleanupOldRequests onePerSecond 500 [0]) = Some 0"
    by (simp add: onePerSecond_options cleanupOldRequests_def)
  have r: "(0::int) \<le> maxRetries onePerSecond" by (simp add: onePerSecond_options)
  have cl: "cleanupOldRequests onePerSecond 500 [0] = [0]"
    "cleanupOldRequests onePerSecond 1100 [0] = []" "windowMs onePerSecond = 1000"
    by (simp_all add: cleanupOldRequests_def onePerSecond_options)
  note a = sliding_window_invariant [where options = onePerSecond and ?t0.0 = 0 and evs = twoCalls
      and s = twoCallsEnd and ?t1.0 = 500 and ?t2.0 = 500 and reqs = "[0]" and retries = 0
      and oldest = 0 and ?s0.0 = twoCallsAdmitted and i = 1 and t = 1100 and ?t3.0 = 1100
      and ?t4.0 = 1101]
  note b = sliding_window_invariant [where options = onePerSecond and ?t0.0 = 0 and evs = twoCalls
      and s = twoCallsEnd and ?t1.0 = 1100 and ?t2.0 = 1101 and reqs = "[0]" and retries = 0
      and oldest = 0 and ?s0.0 = twoCallsWaiting and i = 1 and t = 1099 and wakeAt = 1100]
  note c = sliding_window_invariant [where options = onePerSecond and ?t0.0 = 0 and evs = twoCalls
      and s = twoCallsEnd and ?t1.0 = 1100 and ?t2.0 = 1101 and reqs = "[0]" and retries = 0
      and oldest = 0 and ?s0.0 = twoCallsWaiting and i = 1 and t = 1100 and wakeAt = 1100]
  from a run_twoCalls
  have w: "length (filter (\<lambda>ts. 101 < ts \<and> ts \<le> 101 + windowMs onePerSecond) (admitted twoCallsEnd))
     \<le> nat (maxRequests onePerSecond)" by blast
  from a full oldest r
  have f: "(attempt onePerSecond 500 500 [0] 0 :: int list \<times> unit call) =
          (cleanupOldRequests onePerSecond 500 [0],
           if windowMs onePerSecond - (500 - 0) + 100 > 0
           then AwaitWait 0 (500 + (windowMs onePerSecond - (500 - 0) + 100))
           else LoopHead 0)"
    and p: "\<forall>t reqs'. 500 + (windowMs onePerSecond - (500 - 0) + 100) \<le> t \<longrightarrow>
              0 \<notin> set (cleanupOldRequests onePerSecond t reqs')"
    by blast+
  from f have f': "(attempt onePerSecond 500 500 [0] 0 :: int list \<times> unit call) = ([0], AwaitWait 0 1100)"
    by (simp add: cl)
  from b free
  have g: "(attempt onePerSecond 1100 1101 [0] 0 :: int list \<times> unit call)
      = (cleanupOldRequests onePerSecond 1100 [0] @ [1101], AwaitFn 0)" by blast
  then have g': "(attempt onePerSecond 1100 1101 [0] 0 :: int list \<times> unit call) = ([1101], AwaitFn 0)"
    by (simp add: cl)
  have "500 + (windowMs onePerSecond - (500 - 0) + 100) \<le> (1100::int)"
    by (simp add: onePerSecond_options)
  with p have q: "0 \<notin> set (cleanupOldRequests onePerSecond 1100 [0])" by blast
  have adm: "admitted twoCallsEnd = [0, 1101]" by (simp add: twoCallsEnd_def)
  have st: "requests twoCallsAdmitted = [0]" "admitted twoCallsAdmitted = [0]"
    "calls twoCallsAdmitted = [AwaitFn 0, LoopHead 0]"
    by (simp_all add: twoCallsAdmitted_def)
  have p5: "1 < length (calls twoCallsAdmitted) \<and> calls twoCallsAdmitted ! 1 = LoopHead 0
      \<and> clock twoCallsAdmitted \<le> 500 \<and> (500::int) \<le> 500"
    by (simp add: twoCallsAdmitted_def)
  have e1: "applyEvent onePerSecond twoCallsAdmitted (Run 1 500 500) = Some twoCallsWaiting"
    using a [THEN conjunct2, THEN conjunct2, THEN conjunct2, THEN conjunct2, THEN conjunct1,
        THEN mp, OF p5] full
    by (simp add: st f') (simp add: twoCallsAdmitted_def twoCallsWaiting_def)
  have p6: "1 < length (calls twoCallsWaiting) \<and> calls twoCallsWaiting ! 1 = AwaitWait 0 1100
      \<and> clock twoCallsWaiting \<le> 1099"
    and p6': "1 < length (calls twoCallsWaiting) \<and> calls twoCallsWaiting ! 1 = AwaitWait 0 1100
      \<and> clock twoCallsWaiting \<le> 1100"
    and sw: "calls twoCallsWaiting = [AwaitFn 0, AwaitWait 0 1100]"
    by (simp_all add: twoCallsWaiting_def)
  have e2: "applyEvent onePerSecond twoCallsWaiting (Wake 1 1099) = None"
    using b [THEN conjunct2, THEN conjunct2, THEN conjunct2, THEN conjunct2, THEN conjunct2,
        THEN conjunct1, THEN mp, OF p6]
    by simp
  have e3: "applyEvent onePerSecond twoCallsWaiting (Wake 1 1100) =
       Some (twoCallsWaiting\<lparr> clock := 1100, calls := [AwaitFn 0, LoopHead 0] \<rparr>)"
    using c [THEN conjunct2, THEN conjunct2, THEN conjunct2, THEN conjunct2, THEN conjunct2,
        THEN conjunct1, THEN mp, OF p6']
    by (simp add: sw)
  have p7: "1 < length (calls twoCallsAdmitted) \<and> calls twoCallsAdmitted ! 1 = LoopHead 0
        \<and> 0 \<le> maxRetries onePerSecond \<and> \<not> admits onePerSecond 500 (requests twoCallsAdmitted) 0
        \<and> minOf (cleanupOldRequests onePerSecond 500 (requests twoCallsAdmitted)) = Some 0
        \<and> 0 < windowMs onePerSecond - (500 - 0) + 100
        \<and> clock twoCallsAdmitted \<le> 500 \<and> (500::int) \<le> 500
        \<and> 500 + (windowMs onePerSecond - (500 - 0) + 100) \<le> 1100 \<and> (1100::int) \<le> 1100
        \<and> (1100::int) \<le> 1101"
    using full oldest r by (simp add: st cl) (simp add: twoCallsAdmitted_def)
  obtain s' where s': "run onePerSecond twoCallsAdmitted [Run 1 500 500, Wake 1 1100, Run 1 1100 1101] = Some s'"
      "requests s' = fst (attempt onePerSecond 1100 1101
                 (cleanupOldRequests onePerSecond 500 (requests twoCallsAdmitted)) 0 :: int list \<times> unit call)"
      "calls s' ! 1 = snd (attempt onePerSecond 1100 1101
                 (cleanupOldRequests onePerSecond 500 (requests twoCallsAdmitted)) 0)"
      "admitted s' = (if admits onePerSecond 1100 (cleanupOldRequests onePerSecond 500 (requests twoCallsAdmitted)) 0
                             then admitted twoCallsAdmitted @ [1101] else admitted twoCallsAdmitted)"
    using a [THEN conjunct2, THEN conjunct2, THEN conjunct2, THEN conjunct2, THEN conjunct2,
        THEN conjunct2, THEN mp, OF p7]
    by blast
  have "requests s' = [1101]" "calls s' ! 1 = AwaitFn 0" "admitted s' = [0, 1101]"
    using s'(2-4) free by (simp_all add: st cl g')
  with s'(1)
  have e4: "\<exists>s'. run onePerSecond twoCallsAdmitted [Run 1 500 500, Wake 1 1100, Run 1 1100 1101] = Some s'
         \<and> requests s' = [1101] \<and> calls s' ! 1 = AwaitFn 0 \<and> admitted s' = [0, 1101]"
    by blast
  have e0: "run onePerSecond (initialLimiter 0) (take 3 twoCalls) = Some twoCallsAdmitted"
    by (simp add: twoCalls_def twoCallsAdmitted_def initialLimiter_def onePerSecond_options
        applyEvent_def attempt_def admits_def cleanupOldRequests_def Let_def)
  from w adm f' q g' e0 e1 e2 e3 e4 show ?thesis by blast
qed

subsection \<open>The retry budget\<close>

lemma rateLimitCount_all:
  "list_all isRateLimitError errors \<Longrightarrow> rateLimitCount errors = int (length errors)"
  by (simp add: rateLimitCount_def list_all_iff)

lemma rateLimitCount_snoc:
  "rateLimitCount (errors @ [e]) = rateLimitCount errors + (if isRateLimitError e then 1 else 0)"
  by (simp add: rateLimitCount_def)

lemma callInv_attempt:
  assumes "callInv options (LoopHead r) errors"
  shows "callInv options (snd (attempt options t1 t2 reqs r :: int list \<times> 'a call)) errors"
  using assms by (simp add: callInv_def attempt_def Let_def split: option.split)

lemma callInv_wake:
  "callInv options (AwaitWait r wakeAt) errors \<Longrightarrow> callInv options (LoopHead r) errors"
  by (simp add: callInv_def)

lemma callInv_resolved:
  assumes "callInv options (AwaitFn r) errors"
  shows "callInv options (afterFn options t r (Resolved v)) errors"
  using assms by (simp add: callInv_def afterFn_def rateLimitCount_all)

lemma callInv_rejected:
  assumes "callInv options (AwaitFn r) errors"
  shows "callInv options (afterFn options t r (Rejected e)) (errors @ [e])"
proof -
  from assms have r: "r = int (length errors)" "list_all isRateLimitError errors"
    "r \<le> maxRetries options" by (simp_all add: callInv_def)
  then have cnt: "rateLimitCount errors = r" by (simp add: rateLimitCount_all)
  show ?thesis
  proof (cases "isRateLimitError e")
    case False
    with cnt r show ?thesis by (simp add: callInv_def afterFn_def rateLimitCount_snoc)
  next
    case True
    with cnt r show ?thesis
      by (simp add: callInv_def afterFn_def rateLimitCount_snoc Let_def)
  qed
qed

lemma callsInv_initial: "callsInv options (initialLimiter t0)"
  by (simp add: callsInv_def initialLimiter_def)

lemma callsInv_applyEvent:
  fixes s :: "'a limiter"
  assumes nonneg: "0 \<le> maxRetries options"
    and inv: "callsInv options s" and ev: "applyEvent options s ev = Some s'"
  shows "callsInv options s'"
proof (cases ev)
  case Start
  with ev have "calls s' = calls s @ [LoopHead 0]" "rejections s' = rejections s @ [[]]"
    by (auto dest: applyEvent_Start)
  moreover have "callInv options (LoopHead 0 :: 'a call) []"
    using nonneg by (simp add: callInv_def)
  ultimately show ?thesis using inv
    by (simp add: callsInv_def list_all2_appendI)
next
  case (Run i t1 t2)
  with ev obtain r where i: "i < length (calls s)" "calls s ! i = LoopHead r"
    and s': "calls s' = (calls s)[i := snd (attempt options t1 t2 (requests s) r)]"
      "rejections s' = rejections s"
    by (auto dest: applyEvent_Run)
  from inv i have "callInv options (LoopHead r :: 'a call) (rejections s ! i)"
    by (auto simp: callsInv_def list_all2_conv_all_nth)
  then have "callInv options (snd (attempt options t1 t2 (requests s) r :: int list \<times> 'a call))
      (rejections s ! i)"
    by (rule callInv_attempt)
  with inv i show ?thesis
    unfolding callsInv_def s'
    by (metis list_all2_update_cong list_update_id)
next
  case (Settle i t outcome)
  with ev obtain r where i: "i < length (calls s)" "calls s ! i = AwaitFn r"
    and s': "calls s' = (calls s)[i := afterFn options t r outcome]"
      "rejections s' = (case outcome of
                             Rejected error \<Rightarrow> (rejections s)[i := rejections s ! i @ [error]]
                           | Resolved result \<Rightarrow> rejections s)"
    by (auto dest: applyEvent_Settle)
  from inv i have c: "callInv options (AwaitFn r :: 'a call) (rejections s ! i)"
    by (auto simp: callsInv_def list_all2_conv_all_nth)
  show ?thesis
  proof (cases outcome)
    case (Resolved v)
    from inv callInv_resolved [OF c, of t v]
    have "list_all2 (callInv options) ((calls s)[i := afterFn options t r (Resolved v)])
        ((rejections s)[i := rejections s ! i])"
      unfolding callsInv_def by (rule list_all2_update_cong)
    with Resolved show ?thesis unfolding callsInv_def s' by simp
  next
    case (Rejected e)
    from inv callInv_rejected [OF c, of t e]
    have "list_all2 (callInv options) ((calls s)[i := afterFn options t r (Rejected e)])
        ((rejections s)[i := rejections s ! i @ [e]])"
      unfolding callsInv_def by (rule list_all2_update_cong)
    with Rejected show ?thesis unfolding callsInv_def s' by simp
  qed
next
  case (Wake i t)
  with ev obtain r wakeAt where i: "i < length (calls s)" "calls s ! i = AwaitWait r wakeAt"
    and s': "calls s' = (calls s)[i := LoopHead r]" "rejections s' = rejections s"
    by (auto dest: applyEvent_Wake)
  from inv i have "callInv options (AwaitWait r wakeAt :: 'a call) (rejections s ! i)"
    by (auto simp: callsInv_def list_all2_conv_all_nth)
  then have "callInv options (LoopHead r :: 'a call) (rejections s ! i)" by (rule callInv_wake)
  with inv i show ?thesis
    unfolding callsInv_def s'
    by (metis list_all2_update_cong list_update_id)
qed

lemma callsInv_run:
  fixes s :: "'a limiter"
  assumes "0 \<le> maxRetries options"
  shows "callsInv options s \<Longrightarrow> run options s evs = Some s' \<Longrightarrow> callsInv options s'"
proof (induction evs arbitrary: s)
  case Nil
  then show ?case by simp
next
  case (Cons ev evs)
  from Cons.prems(2) obtain s1 where s1: "applyEvent options s ev = Some s1"
    and rest: "run options s1 evs = Some s'"
    by (auto split: option.splits)
  from assms Cons.prems(1) s1 have "callsInv options s1" by (rule callsInv_applyEvent)
  from Cons.IH [OF this rest] show ?case .
qed

text \<open>
  Claim C5, as the specification states it, fails: when the retries are exhausted the
  \<open>catch\<close> rethrows the error of the operation.  Under the limiter of the Jupiter API
  (\<open>maxRetries = 3\<close>) a call whose operation is rejected with status 429 four times ends
  with that error, not with \<open>Failed after 3 retries\<close>.
\<close>

theorem exhausted_retries_rethrow_operation_error:
  "run jupiterRateLimiter (initialLimiter 0) alwaysRateLimited = Some alwaysRateLimitedEnd
   \<and> calls alwaysRateLimitedEnd = [Thrown (OperationError tooManyRequests)]
   \<and> rateLimitCount (rejections alwaysRateLimitedEnd ! 0) = 4
   \<and> maxRetries jupiterRateLimiter = 3
   \<and> calls alwaysRateLimitedEnd ! 0 \<noteq> Thrown (FailedAfterRetries (maxRetries jupiterRateLimiter))"
  by (simp add: run_alwaysRateLimited)
     (simp add: alwaysRateLimitedEnd_def rateLimitCount_def tooManyRequests_rate_limit
        jupiter_options)

text \<open>
  Claim C5, amended.  With \<open>maxRetries\<close> not negative, in every run a call whose
  operation has been rejected with a rate-limit error more than \<open>maxRetries\<close> times has
  thrown the operation's own last error, a rate-limit error, at rejection number
  \<open>maxRetries + 1\<close>; and no call ever throws \<open>Failed after N retries\<close>.  A rate-limit
  rejection with the budget used up is rethrown, one within the budget is followed by a
  wait of \<open>retryAfterMs * 2^(retries - 1)\<close>, any other rejection is rethrown at once, and
  the error of the last line is thrown only by a pass that finds
  \<open>retries > maxRetries\<close> at the head of the loop.
\<close>

theorem retry_budget_outcome:
  fixes s :: "'a limiter"
  shows
  "(0 \<le> maxRetries options \<and> run options (initialLimiter t0) evs = Some s
      \<and> i < length (calls s) \<longrightarrow>
      (\<forall>n. calls s ! i \<noteq> Thrown (FailedAfterRetries n))
      \<and> (maxRetries options < rateLimitCount (rejections s ! i) \<longrightarrow>
           calls s ! i = Thrown (OperationError (last (rejections s ! i)))
           \<and> isRateLimitError (last (rejections s ! i))
           \<and> rateLimitCount (rejections s ! i) = maxRetries options + 1))
   \<and> (isRateLimitError e \<and> maxRetries options < retries + 1 \<longrightarrow>
        (afterFn options t retries (Rejected e) :: 'a call) = Thrown (OperationError e))
   \<and> (isRateLimitError e \<and> 0 \<le> retries \<and> retries + 1 \<le> maxRetries options \<longrightarrow>
        (afterFn options t retries (Rejected e) :: 'a call) =
          AwaitWait (retries + 1) (t + retryAfterMs options * 2 ^ nat retries))
   \<and> (\<not> isRateLimitError e \<longrightarrow>
        (afterFn options t retries (Rejected e) :: 'a call) = Thrown (OperationError e))
   \<and> (maxRetries options < retries \<longrightarrow>
        (attempt options t1 t2 reqs retries :: int list \<times> 'a call) =
          (reqs, Thrown (FailedAfterRetries (maxRetries options))))"
proof -
  have a: "(\<forall>n. calls s ! i \<noteq> Thrown (FailedAfterRetries n))
      \<and> (maxRetries options < rateLimitCount (rejections s ! i) \<longrightarrow>
           calls s ! i = Thrown (OperationError (last (rejections s ! i)))
           \<and> isRateLimitError (last (rejections s ! i))
           \<and> rateLimitCount (rejections s ! i) = maxRetries options + 1)"
    if nonneg: "0 \<le> maxRetries options" and r: "run options (initialLimiter t0) evs = Some s"
      and i: "i < length (calls s)"
  proof -
    have "callsInv options s"
      using nonneg callsInv_initial r by (rule callsInv_run)
    with i have inv: "callInv options (calls s ! i) (rejections s ! i)"
      by (simp add: callsInv_def list_all2_conv_all_nth)
    show ?thesis
    proof (cases "calls s ! i")
      case (LoopHead r)
      with inv show ?thesis by (simp add: callInv_def rateLimitCount_all)
    next
      case (AwaitFn r)
      with inv show ?thesis by (simp add: callInv_def rateLimitCount_all)
    next
      case (AwaitWait r w)
      with inv show ?thesis by (simp add: callInv_def rateLimitCount_all)
    next
      case (Returned v)
      with inv show ?thesis by (simp add: callInv_def)
    next
      case (Thrown f)
      with inv show ?thesis
        by (cases f) (auto simp: callInv_def split: if_splits)
    qed
  qed
  have b: "(afterFn options t retries (Rejected e) :: 'a call) = Thrown (OperationError e)"
    if "isRateLimitError e" "maxRetries options < retries + 1"
    using that by (simp add: afterFn_def)
  have c: "(afterFn options t retries (Rejected e) :: 'a call) =
          AwaitWait (retries + 1) (t + retryAfterMs options * 2 ^ nat retries)"
    if "isRateLimitError e" "0 \<le> retries" "retries + 1 \<le> maxRetries options"
    using that by (simp add: afterFn_def)
  have d: "(afterFn options t retries (Rejected e) :: 'a call) = Thrown (OperationError e)"
    if "\<not> isRateLimitError e"
    using that by (simp add: afterFn_def)
  have e: "(attempt options t1 t2 reqs retries :: int list \<times> 'a call) =
          (reqs, Thrown (FailedAfterRetries (maxRetries options)))"
    if "maxRetries options < retries"
    using that by (simp add: attempt_def)
  from a b c d e show ?thesis by blast
qed

theorem retry_budget_outcome_witness:
  "calls alwaysRateLimitedEnd ! 0 = Thrown (OperationError tooManyRequests)
   \<and> rateLimitCount (rejections alwaysRateLimitedEnd ! 0) = maxRetries jupiterRateLimiter + 1
   \<and> (afterFn jupiterRateLimiter 14160 3 (Rejected tooManyRequests) :: unit call)
       = Thrown (OperationError tooManyRequests)
   \<and> (afterFn jupiterRateLimiter 40 0 (Rejected tooManyRequests) :: unit call)
       = AwaitWait 1 2040
   \<and> (afterFn jupiterRateLimiter 40 0 (Rejected serverError) :: unit call)
       = Thrown (OperationError serverError)
   \<and> (attempt jupiterRateLimiter 0 0 [] 4 :: int list \<times> unit call)
       = ([], Thrown (FailedAfterRetries 3))"
proof -
  have cnt: "rateLimitCount (rejections alwaysRateLimitedEnd ! 0) = 4"
    by (simp add: alwaysRateLimitedEnd_def rateLimitCount_def tooManyRequests_rate_limit)
  have opts: "maxRetries jupiterRateLimiter = 3" "retryAfterMs jupiterRateLimiter = 2000"
    by (simp_all add: jupiter_options)
  have len: "0 < length (calls alwaysRateLimitedEnd)" by (simp add: alwaysRateLimitedEnd_def)
  have lst: "last (rejections alwaysRateLimitedEnd ! 0) = tooManyRequests"
    by (simp add: alwaysRateLimitedEnd_def)
  have other: "\<not> isRateLimitError serverError"
    by (simp add: isRateLimitError_def serverError_def str_includes_def sublist_code prefix_code)
  note a = retry_budget_outcome [where options = jupiterRateLimiter and ?t0.0 = 0
      and evs = alwaysRateLimited and s = alwaysRateLimitedEnd and i = 0
      and e = tooManyRequests and t = 14160 and retries = 3]
  note b = retry_budget_outcome [where options = jupiterRateLimiter and ?t0.0 = 0
      and evs = alwaysRateLimited and s = alwaysRateLimitedEnd and i = 0
      and e = tooManyRequests and t = 40 and retries = 0]
  note c = retry_budget_outcome [where options = jupiterRateLimiter and ?t0.0 = 0
      and evs = alwaysRateLimited and s = alwaysRateLimitedEnd and i = 0
      and e = serverError and t = 40 and retries = 0]
  note d = retry_budget_outcome [where options = jupiterRateLimiter and ?t0.0 = 0
      and evs = alwaysRateLimited and s = alwaysRateLimitedEnd and i = 0
      and e = serverError and t = 40 and retries = 4 and ?t1.0 = 0 and ?t2.0 = 0 and reqs = "[]"]
  from a run_alwaysRateLimited cnt opts len lst tooManyRequests_rate_limit
  have "calls alwaysRateLimitedEnd ! 0 = Thrown (OperationError tooManyRequests)"
    "(afterFn jupiterRateLimiter 14160 3 (Rejected tooManyRequests) :: unit call)
       = Thrown (OperationError tooManyRequests)"
    by simp_all
  moreover from b opts tooManyRequests_rate_limit
  have "(afterFn jupiterRateLimiter 40 0 (Rejected tooManyRequests) :: unit call)
       = AwaitWait 1 2040" by simp
  moreover from c other
  have "(afterFn jupiterRateLimiter 40 0 (Rejected serverError) :: unit call)
       = Thrown (OperationError serverError)" by blast
  moreover from d opts
  have "(attempt jupiterRateLimiter 0 0 [] 4 :: int list \<times> unit call)
       = ([], Thrown (FailedAfterRetries 3))" by simp
  ultimately show ?thesis using cnt opts by simp
qed

end
